theory Spec2Isabelle
  imports Complex_Main "HOL-Library.Word"
begin

section \<open>JavaScript numbers\<close>

text \<open>
  A JavaScript \<open>number\<close> is an IEEE-754 binary64 value. The finite values are modelled as
  the rationals they denote, with the two infinities and NaN beside them. The sign of zero
  is not modelled, and neither is overflow to an infinity: every magnitude this program
  computes stays far below \<open>2 ^ 1024\<close>.
\<close>

datatype number = NaN | PosInf | NegInf | Num rat

text \<open>
  Round to nearest, ties to even, on a non-negative scaled significand.
\<close>

definition rne :: "rat \<Rightarrow> int" where
  "rne x =
     (let f = \<lfloor>x\<rfloor>; d = x - of_int f
      in if d < 1 / 2 then f
         else if 1 / 2 < d then f + 1
         else if even f then f else f + 1)"

text \<open>
  \<open>normalise k m u\<close> scales the significand \<open>m\<close> into \<open>[2 ^ 52, 2 ^ 53)\<close> and the unit in
  the last place \<open>u\<close> with it, keeping \<open>m * u\<close>. It makes at most \<open>k\<close> steps; with
  \<open>k = 1074\<close> and \<open>u = 1\<close> at the start the unit never drops below \<open>2 ^ -1074\<close>, the
  spacing of the subnormal numbers.
\<close>

fun normalise :: "nat \<Rightarrow> rat \<Rightarrow> rat \<Rightarrow> rat \<times> rat" where
  "normalise 0 m u = (m, u)"
| "normalise (Suc k) m u =
     (if 2 ^ 53 \<le> m then normalise k (m / 2) (u * 2)
      else if m < 2 ^ 52 then normalise k (m * 2) (u / 2)
      else (m, u))"

text \<open>The binary64 value nearest to a rational.\<close>

definition fl :: "rat \<Rightarrow> rat" where
  "fl q =
     (if q = 0 then 0
      else case normalise 1074 \<bar>q\<bar> 1 of (m, u) \<Rightarrow> sgn q * of_int (rne m) * u)"

text \<open>The sign of a number as \<open>-1\<close>, \<open>0\<close> or \<open>1\<close>; NaN has none.\<close>

fun nsgn :: "number \<Rightarrow> rat" where
  "nsgn (Num a) = sgn a"
| "nsgn PosInf = 1"
| "nsgn NegInf = - 1"
| "nsgn NaN = 0"

definition inf_of :: "rat \<Rightarrow> number" where
  "inf_of s = (if s = 0 then NaN else if 0 < s then PosInf else NegInf)"

text \<open>\<open>a * b\<close>\<close>

fun nmul :: "number \<Rightarrow> number \<Rightarrow> number" where
  "nmul (Num a) (Num b) = Num (fl (a * b))"
| "nmul NaN y = NaN"
| "nmul x NaN = NaN"
| "nmul x y = inf_of (nsgn x * nsgn y)"

text \<open>\<open>a / b\<close>; a zero divisor counts as \<open>+0\<close>.\<close>

fun ndiv :: "number \<Rightarrow> number \<Rightarrow> number" where
  "ndiv (Num a) (Num b) = (if b = 0 then inf_of (sgn a) else Num (fl (a / b)))"
| "ndiv NaN y = NaN"
| "ndiv x NaN = NaN"
| "ndiv (Num a) y = Num 0"
| "ndiv x (Num b) = inf_of (nsgn x * (if b < 0 then - 1 else 1))"
| "ndiv x y = NaN"

text \<open>\<open>a + b\<close> and \<open>a - b\<close>\<close>

fun nadd :: "number \<Rightarrow> number \<Rightarrow> number" where
  "nadd (Num a) (Num b) = Num (fl (a + b))"
| "nadd NaN y = NaN"
| "nadd x NaN = NaN"
| "nadd PosInf NegInf = NaN"
| "nadd NegInf PosInf = NaN"
| "nadd (Num a) y = y"
| "nadd x y = x"

fun nneg :: "number \<Rightarrow> number" where
  "nneg (Num a) = Num (- a)"
| "nneg PosInf = NegInf"
| "nneg NegInf = PosInf"
| "nneg NaN = NaN"

definition nsub :: "number \<Rightarrow> number \<Rightarrow> number" where
  "nsub x y = nadd x (nneg y)"

text \<open>\<open>a < b\<close>; false when either side is NaN.\<close>

fun nlt :: "number \<Rightarrow> number \<Rightarrow> bool" where
  "nlt NaN y = False"
| "nlt x NaN = False"
| "nlt (Num a) (Num b) = (a < b)"
| "nlt x PosInf = (x \<noteq> PosInf)"
| "nlt NegInf y = (y \<noteq> NegInf)"
| "nlt x y = False"

text \<open>\<open>a <= b\<close>, \<open>a > b\<close>, \<open>a >= b\<close> and \<open>a === b\<close>\<close>

definition nle :: "number \<Rightarrow> number \<Rightarrow> bool" where
  "nle x y = (x \<noteq> NaN \<and> y \<noteq> NaN \<and> \<not> nlt y x)"

definition ngt :: "number \<Rightarrow> number \<Rightarrow> bool" where
  "ngt x y = nlt y x"


definition strict_eq :: "number \<Rightarrow> number \<Rightarrow> bool" where
  "strict_eq x y = (x \<noteq> NaN \<and> y \<noteq> NaN \<and> x = y)"

text \<open>\<open>Math.floor\<close>, \<open>Math.min\<close> and \<open>Math.max\<close>; all three are exact.\<close>

fun Math_floor :: "number \<Rightarrow> number" where
  "Math_floor (Num a) = Num (of_int \<lfloor>a\<rfloor>)"
| "Math_floor x = x"

definition Math_min :: "number \<Rightarrow> number \<Rightarrow> number" where
  "Math_min x y = (if x = NaN \<or> y = NaN then NaN else if nlt y x then y else x)"

definition Math_max :: "number \<Rightarrow> number \<Rightarrow> number" where
  "Math_max x y = (if x = NaN \<or> y = NaN then NaN else if nlt x y then y else x)"

text \<open>A decimal literal of the source denotes the nearest binary64 value.\<close>

definition lit :: "rat \<Rightarrow> number" where
  "lit q = Num (fl q)"

section \<open>The multiplier tables\<close>

datatype riskMode = low | medium | high

text \<open>
  \<^verbatim>\<open>const MULTIPLIERS = { low: [...], medium: [...], high: [...] }\<close>, the same table in
  \<^verbatim>\<open>provableFairness\<close> and in \<^verbatim>\<open>plinkoService.ts\<close>.
\<close>

fun MULTIPLIERS :: "riskMode \<Rightarrow> number list" where
  "MULTIPLIERS low =
     [lit (3/2), lit (6/5), lit (11/10), lit 1, lit (9/10), lit (4/5), lit (7/10), lit (3/5),
      lit (1/2),
      lit (3/5), lit (7/10), lit (4/5), lit (9/10), lit 1, lit (11/10), lit (6/5), lit (3/2)]"
| "MULTIPLIERS medium =
     [lit 5, lit 3, lit 2, lit (3/2), lit 1, lit (1/2), lit (3/10), lit (1/5),
      lit (1/10),
      lit (1/5), lit (3/10), lit (1/2), lit 1, lit (3/2), lit 2, lit 3, lit 5]"
| "MULTIPLIERS high =
     [lit 110, lit 41, lit 10, lit 5, lit 3, lit 2, lit (3/2), lit (1/2),
      lit (3/10),
      lit (1/2), lit (3/2), lit 2, lit 3, lit 5, lit 10, lit 41, lit 110]"

section \<open>Strings, digests and \<^verbatim>\<open>parseInt\<close>\<close>

text \<open>
  Strings are byte strings. \<^verbatim>\<open>crypto.createHash('sha256').update(m).digest()\<close> belongs to
  the Node runtime, not to this repository: it is a parameter \<open>sha256\<close> of every function
  that hashes, a map from the message to the bytes of its digest.
\<close>

type_synonym hash = "string \<Rightarrow> 8 word list"

definition hex_digit :: "nat \<Rightarrow> char" where
  "hex_digit n = ''0123456789abcdef'' ! n"

text \<open>\<^verbatim>\<open>.digest('hex')\<close>: two lower-case digits per byte, high nibble first.\<close>

definition hex_byte :: "8 word \<Rightarrow> string" where
  "hex_byte b = [hex_digit (unat b div 16), hex_digit (unat b mod 16)]"

definition hex_encode :: "8 word list \<Rightarrow> string" where
  "hex_encode bs = concat (map hex_byte bs)"

text \<open>\<^verbatim>\<open>hashServerSeed\<close>\<close>

definition hashServerSeed :: "hash \<Rightarrow> string \<Rightarrow> string" where
  "hashServerSeed sha256 serverSeed = hex_encode (sha256 serverSeed)"

text \<open>
  \<^verbatim>\<open>parseInt(s, 16)\<close>: skip leading white space (here the ASCII one), read a sign, skip
  a \<^verbatim>\<open>0x\<close> prefix, read the longest run of hexadecimal digits; NaN when that run is empty.
  The integer read is rounded to a number.
\<close>

definition is_space :: "char \<Rightarrow> bool" where
  "is_space c = (of_char c \<in> {9, 10, 11, 12, 13, 32 :: nat})"

definition is_hex :: "char \<Rightarrow> bool" where
  "is_hex c =
     (let k = (of_char c :: nat)
      in (48 \<le> k \<and> k \<le> 57) \<or> (97 \<le> k \<and> k \<le> 102) \<or> (65 \<le> k \<and> k \<le> 70))"

definition hex_val :: "char \<Rightarrow> nat" where
  "hex_val c =
     (let k = (of_char c :: nat)
      in if k \<le> 57 then k - 48 else if 97 \<le> k then k - 87 else k - 55)"

definition parseInt16 :: "string \<Rightarrow> number" where
  "parseInt16 s =
     (let s1 = dropWhile is_space s;
          neg = (take 1 s1 = ''-'');
          s2 = (if take 1 s1 = ''-'' \<or> take 1 s1 = ''+'' then drop 1 s1 else s1);
          s3 = (if take 2 s2 = ''0x'' \<or> take 2 s2 = ''0X'' then drop 2 s2 else s2);
          ds = takeWhile is_hex s3
      in if ds = [] then NaN
         else Num ((if neg then - 1 else 1) *
                   fl (of_nat (foldl (\<lambda>a c. 16 * a + hex_val c) 0 ds))))"

text \<open>
  The plain decimal numeral of an integer: a minus sign if it is negative, then the
  digits of its magnitude. It is the text of a number only for the integers below \<open>2 ^ 53\<close>
  in magnitude (see \<open>number_to_string\<close> below).
\<close>

definition dec_digit :: "nat \<Rightarrow> char" where
  "dec_digit n = ''0123456789'' ! n"

fun digits10 :: "nat \<Rightarrow> string" where
  "digits10 n =
     (if n < 10 then [dec_digit n] else digits10 (n div 10) @ [dec_digit (n mod 10)])"

declare digits10.simps [simp del]

definition decimal_of_int :: "int \<Rightarrow> string" where
  "decimal_of_int i = (if i < 0 then CHR ''-'' # digits10 (nat (- i)) else digits10 (nat i))"

fun join_commas :: "string list \<Rightarrow> string" where
  "join_commas [] = []"
| "join_commas [s] = s"
| "join_commas (s # t # ts) = s @ CHR '','' # join_commas (t # ts)"

text \<open>
  The text of a number, as a template literal and \<^verbatim>\<open>JSON.stringify\<close> print it
  (\<^verbatim>\<open>Number::toString\<close> of ECMAScript). For a positive \<open>v\<close> it takes the fewest digits \<open>k\<close>
  such that some \<open>s\<close> with \<open>k\<close> digits and some \<open>n\<close> give a decimal \<open>s * 10 ^ (n - k)\<close> that
  rounds to \<open>v\<close>, and among these the decimal nearest to \<open>v\<close>.
\<close>

definition pow10 :: "int \<Rightarrow> rat" where
  "pow10 e = (if 0 \<le> e then 10 ^ nat e else 1 / 10 ^ nat (- e))"

text \<open>
  \<open>decimal_exponent 400 v 1\<close> is the \<open>n\<close> with \<open>10 ^ (n - 1) \<le> v < 10 ^ n\<close>; 400 steps cover
  the binary64 range.
\<close>

fun decimal_exponent :: "nat \<Rightarrow> rat \<Rightarrow> int \<Rightarrow> int" where
  "decimal_exponent 0 v n = n"
| "decimal_exponent (Suc f) v n =
     (if 10 \<le> v then decimal_exponent f (v / 10) (n + 1)
      else if v < 1 then decimal_exponent f (v * 10) (n - 1)
      else n)"

text \<open>
  The decimals with \<open>k\<close> digits next to \<open>v\<close>, below and above, and the one to print if either
  rounds to \<open>v\<close>: the nearer one, the even one on a tie. The result is \<open>(s, n)\<close>.
\<close>

definition candidate :: "rat \<Rightarrow> int \<Rightarrow> nat \<Rightarrow> (int \<times> int) option" where
  "candidate v n0 k =
     (let p = pow10 (n0 - int k);
          lo = \<lfloor>v / p\<rfloor>;
          a = of_int lo * p;
          b = of_int (lo + 1) * p;
          hi = (if lo + 1 = 10 ^ k then (10 ^ (k - 1), n0 + 1) else (lo + 1, n0))
      in if fl a = v \<and> fl b = v
         then (if v - a < b - v \<or> (v - a = b - v \<and> even lo) then Some (lo, n0) else Some hi)
         else if fl a = v then Some (lo, n0)
         else if fl b = v then Some hi
         else None)"

text \<open>The first \<open>k\<close>, counting up, that has a candidate; the result is \<open>(s, n, k)\<close>.\<close>

fun shortest_from :: "nat \<Rightarrow> rat \<Rightarrow> int \<Rightarrow> nat \<Rightarrow> (int \<times> int \<times> nat) option" where
  "shortest_from 0 v n0 k = None"
| "shortest_from (Suc f) v n0 k =
     (case candidate v n0 k of
        Some (s, n) \<Rightarrow> Some (s, n, k)
      | None \<Rightarrow> shortest_from f v n0 (Suc k))"

text \<open>
  The layout of the digits \<open>ds\<close> of \<open>s\<close> for the decimal exponent \<open>n\<close>: an integer with
  trailing zeros, a decimal point inside the digits, a fraction with leading zeros, or
  the exponent form (from \<open>1e+21\<close> up and from \<open>1e-7\<close> down).
\<close>

definition exponent_form :: "string \<Rightarrow> int \<Rightarrow> string" where
  "exponent_form ds n =
     (if length ds = 1 then ds else take 1 ds @ ''.'' @ drop 1 ds) @
     ''e'' @ (if n - 1 < 0 then ''-'' else ''+'') @ digits10 (nat \<bar>n - 1\<bar>)"

definition format_digits :: "string \<Rightarrow> int \<Rightarrow> string" where
  "format_digits ds n =
     (let k = int (length ds)
      in if k \<le> n \<and> n \<le> 21 then ds @ replicate (nat (n - k)) CHR ''0''
         else if 0 < n \<and> n \<le> 21 then take (nat n) ds @ ''.'' @ drop (nat n) ds
         else if - 6 < n \<and> n \<le> 0 then ''0.'' @ replicate (nat (- n)) CHR ''0'' @ ds
         else exponent_form ds n)"

text \<open>
  Seventeen digits always identify a binary64 number, so the search succeeds on every
  one; the other branch is there for rationals that are none.
\<close>

definition positive_to_string :: "rat \<Rightarrow> string" where
  "positive_to_string v =
     (let n0 = decimal_exponent 400 v 1
      in case shortest_from 17 v n0 1 of
           Some (s, n, k) \<Rightarrow> format_digits (digits10 (nat s)) n
         | None \<Rightarrow> exponent_form (digits10 (nat \<lfloor>v / pow10 (n0 - 17)\<rfloor>)) n0)"

text \<open>
  An integer below \<open>2 ^ 53\<close> in magnitude is its own shortest decimal and prints as such;
  this is the case of every counter a session reaches.
\<close>

fun number_to_string :: "number \<Rightarrow> string" where
  "number_to_string NaN = ''NaN''"
| "number_to_string PosInf = ''Infinity''"
| "number_to_string NegInf = ''-Infinity''"
| "number_to_string (Num q) =
     (if of_int \<lfloor>q\<rfloor> = q \<and> \<bar>q\<bar> < 2 ^ 53 then decimal_of_int \<lfloor>q\<rfloor>
      else if q < 0 then ''-'' @ positive_to_string (fl (- q))
      else positive_to_string (fl q))"

text \<open>
  \<^verbatim>\<open>JSON.stringify\<close> of an array of numbers that are integers; an integer that is no
  binary64 number stands for the number nearest to it, as when \<^verbatim>\<open>JSON.parse\<close> reads it.
\<close>

definition JSON_stringify :: "int list \<Rightarrow> string" where
  "JSON_stringify xs =
     CHR ''['' # join_commas (map (\<lambda>x. number_to_string (Num (of_int x))) xs) @ '']''"

section \<open>The derivation (\<^verbatim>\<open>provableFairness\<close>)\<close>

text \<open>
  Seeds are strings, the nonce is a number, and a path is a list of integers (\<open>0\<close> is
  left, \<open>1\<close> is right). The row count and the loop index are integers.
\<close>

record GameOptions =
  rows :: int
  riskMode :: riskMode

text \<open>\<open>finalMultiplier\<close> is \<open>None\<close> where the source leaves it \<^verbatim>\<open>undefined\<close>.\<close>

record ProvablyFairResult =
  clientSeed :: string
  serverSeed :: string
  hashedServerSeed :: string
  nonce :: number
  gameResult :: number
  path :: "int list"
  finalMultiplier :: "number option"

text \<open>\<^verbatim>\<open>deterministicRandom\<close>\<close>

definition deterministicRandom :: "hash \<Rightarrow> string \<Rightarrow> string \<Rightarrow> number \<Rightarrow> number" where
  "deterministicRandom sha256 server_seed client_seed n =
     (let seedData = server_seed @ '':'' @ client_seed @ '':'' @ number_to_string n;
          hash = hex_encode (sha256 seedData);
          decimalValue = ndiv (parseInt16 (take 8 hash)) (Num 4294967295)
      in decimalValue)"

text \<open>
  \<^verbatim>\<open>calculatePath\<close>: the loop \<^verbatim>\<open>for (let i = 0; i < rows; i++)\<close> with the array built so far.
  \<^verbatim>\<open>nonce + i\<close> is the addition of numbers: it rounds once the sum passes \<open>2 ^ 53\<close>.
\<close>

function calculatePath_loop ::
  "hash \<Rightarrow> string \<Rightarrow> string \<Rightarrow> number \<Rightarrow> int \<Rightarrow> int \<Rightarrow> int list \<Rightarrow> int list" where
  "calculatePath_loop sha256 server_seed client_seed n row_count i acc =
     (if i < row_count
      then let random = deterministicRandom sha256 server_seed client_seed
                          (nadd n (Num (of_int i)))
           in calculatePath_loop sha256 server_seed client_seed n row_count (i + 1)
                (acc @ [if nlt random (Num (1 / 2)) then 0 else 1])
      else acc)"
  by pat_completeness auto
termination
  by (relation "measure (\<lambda>(sha256, server_seed, client_seed, n, row_count, i, acc).
        nat (row_count - i))") auto

declare calculatePath_loop.simps [simp del]

definition calculatePath :: "hash \<Rightarrow> string \<Rightarrow> string \<Rightarrow> number \<Rightarrow> int \<Rightarrow> int list" where
  "calculatePath sha256 server_seed client_seed n row_count =
     calculatePath_loop sha256 server_seed client_seed n row_count 0 []"

text \<open>
  \<^verbatim>\<open>calculateFinalBin\<close>. The position and the path length are integers of small
  magnitude, on which binary64 addition is exact; the division and the multiplication
  round.
\<close>

definition calculateFinalBin :: "int list \<Rightarrow> number" where
  "calculateFinalBin p =
     (let position = foldl (\<lambda>pos direction. pos + (if direction = 0 then - 1 else 1)) (0::int) p;
          normalizedPosition = position + int (length p);
          totalBins = (17::int);
          scaleFactor = ndiv (Num (of_int totalBins)) (Num (of_int (int (length p) * 2)))
      in Math_min (Math_floor (nmul (Num (of_int normalizedPosition)) scaleFactor))
           (Num (of_int (totalBins - 1))))"

text \<open>
  \<^verbatim>\<open>multipliers[multiplierIndex]\<close>: the element when the index is an integer inside the
  array, \<^verbatim>\<open>undefined\<close> otherwise.
\<close>

fun js_index :: "'a list \<Rightarrow> number \<Rightarrow> 'a option" where
  "js_index xs (Num q) =
     (if of_int \<lfloor>q\<rfloor> = q \<and> 0 \<le> q \<and> q < of_nat (length xs) then Some (xs ! nat \<lfloor>q\<rfloor>)
      else None)"
| "js_index xs x = None"

text \<open>
  Lines 100 to 105 of \<^verbatim>\<open>calculateGameResult\<close>: the multiplier of a bin in a risk mode.
\<close>

definition multiplierIndex :: "number \<Rightarrow> number list \<Rightarrow> number" where
  "multiplierIndex finalBin multipliers =
     Math_min (Math_max (Num 0) finalBin) (Num (of_nat (length multipliers) - 1))"

definition resolveMultiplier :: "number \<Rightarrow> riskMode \<Rightarrow> number option" where
  "resolveMultiplier finalBin mode =
     (let multipliers = MULTIPLIERS mode
      in js_index multipliers (multiplierIndex finalBin multipliers))"

text \<open>\<^verbatim>\<open>calculateGameResult\<close>\<close>

definition calculateGameResult ::
  "hash \<Rightarrow> string \<Rightarrow> string \<Rightarrow> number \<Rightarrow> GameOptions \<Rightarrow> ProvablyFairResult" where
  "calculateGameResult sha256 server_seed client_seed n options =
     (let p = calculatePath sha256 server_seed client_seed n (rows options);
          finalBin = calculateFinalBin p
      in \<lparr>clientSeed = client_seed,
          serverSeed = server_seed,
          hashedServerSeed = hashServerSeed sha256 server_seed,
          nonce = n,
          gameResult = finalBin,
          path = p,
          finalMultiplier = resolveMultiplier finalBin (riskMode options)\<rparr>)"

text \<open>\<open>===\<close> on values that are a number or \<^verbatim>\<open>undefined\<close>.\<close>

fun strict_eq_opt :: "number option \<Rightarrow> number option \<Rightarrow> bool" where
  "strict_eq_opt None None = True"
| "strict_eq_opt (Some x) (Some y) = strict_eq x y"
| "strict_eq_opt x y = False"

text \<open>\<^verbatim>\<open>verifyGameResult\<close>\<close>

definition verifyGameResult ::
  "hash \<Rightarrow> string \<Rightarrow> string \<Rightarrow> number \<Rightarrow> GameOptions \<Rightarrow> ProvablyFairResult \<Rightarrow> bool" where
  "verifyGameResult sha256 server_seed client_seed n options reportedResult =
     (let expectedResult = calculateGameResult sha256 server_seed client_seed n options
      in strict_eq (gameResult expectedResult) (gameResult reportedResult) \<and>
         strict_eq_opt (finalMultiplier expectedResult) (finalMultiplier reportedResult) \<and>
         JSON_stringify (path expectedResult) = JSON_stringify (path reportedResult))"

section \<open>The game server (\<^verbatim>\<open>server/src/index.ts\<close>)\<close>

text \<open>
  The state of one connection. \<^verbatim>\<open>userStates\<close> maps a socket id to it. The nonce of a
  session is a counter: it starts at zero and goes up by one per play.
\<close>

record UserState =
  serverSeed :: string
  clientSeed :: string
  nonce :: int
  balance :: number

type_synonym userStates = "string \<rightharpoonup> UserState"

text \<open>
  What a handler sends back with \<^verbatim>\<open>socket.emit\<close>. A \<^verbatim>\<open>game:result\<close> carries the result, the
  bet as it was received, the amount won and the new balance.
\<close>

datatype event =
  game_init string string number
| game_reveal_seed string
| game_new_seed_hashed string
| game_new_seed_client string
| game_error string
| game_result ProvablyFairResult "number option" number number

text \<open>
  A value read where a number is expected: a missing field is \<^verbatim>\<open>undefined\<close>, which
  converts to NaN.
\<close>

fun to_number :: "number option \<Rightarrow> number" where
  "to_number None = NaN"
| "to_number (Some x) = x"

text \<open>
  The connection handler. The seeds that \<^verbatim>\<open>generateServerSeed\<close> and
  \<^verbatim>\<open>generateClientSeed\<close> draw from the system's random source are arguments.
\<close>

definition on_connection ::
  "hash \<Rightarrow> string \<Rightarrow> string \<Rightarrow> string \<Rightarrow> userStates \<Rightarrow> userStates \<times> event list" where
  "on_connection sha256 socket_id generated_server_seed generated_client_seed states =
     (states(socket_id \<mapsto>
        \<lparr>serverSeed = generated_server_seed, clientSeed = generated_client_seed,
         nonce = 0, balance = Num 1000\<rparr>),
      [game_init (hashServerSeed sha256 generated_server_seed) generated_client_seed (Num 1000)])"

text \<open>\<^verbatim>\<open>socket.on('game:new-server-seed', ...)\<close>\<close>

definition on_new_server_seed ::
  "hash \<Rightarrow> string \<Rightarrow> string \<Rightarrow> userStates \<Rightarrow> userStates \<times> event list" where
  "on_new_server_seed sha256 socket_id generated_server_seed states =
     (case states socket_id of
        None \<Rightarrow> (states, [])
      | Some userState \<Rightarrow>
          (states(socket_id \<mapsto> userState\<lparr>serverSeed := generated_server_seed, nonce := 0\<rparr>),
           [game_reveal_seed (serverSeed userState),
            game_new_seed_hashed (hashServerSeed sha256 generated_server_seed)]))"

text \<open>
  \<^verbatim>\<open>socket.on('game:new-client-seed', ...)\<close>; \<^verbatim>\<open>data.clientSeed || generateClientSeed()\<close>
  takes the generated seed when the field is missing or the empty string.
\<close>

definition on_new_client_seed ::
  "string \<Rightarrow> string option \<Rightarrow> string \<Rightarrow> userStates \<Rightarrow> userStates \<times> event list" where
  "on_new_client_seed socket_id data_clientSeed generated_client_seed states =
     (case states socket_id of
        None \<Rightarrow> (states, [])
      | Some userState \<Rightarrow>
          (let new_seed = (case data_clientSeed of
                             None \<Rightarrow> generated_client_seed
                           | Some s \<Rightarrow> if s = [] then generated_client_seed else s)
           in (states(socket_id \<mapsto> userState\<lparr>clientSeed := new_seed, nonce := 0\<rparr>),
               [game_new_seed_client new_seed])))"

text \<open>
  \<^verbatim>\<open>socket.on('game:play', ...)\<close>. The three fields of \<^verbatim>\<open>data\<close> may be missing;
  \<^verbatim>\<open>rows || 16\<close> also replaces a zero.
\<close>

definition on_play ::
  "hash \<Rightarrow> string \<Rightarrow> number option \<Rightarrow> riskMode option \<Rightarrow> int option \<Rightarrow> userStates
     \<Rightarrow> userStates \<times> event list" where
  "on_play sha256 socket_id betAmount data_riskMode data_rows states =
     (case states socket_id of
        None \<Rightarrow> (states, [game_error ''User state not found''])
      | Some userState \<Rightarrow>
          if nle (to_number betAmount) (Num 0) \<or> ngt (to_number betAmount) (balance userState)
          then (states, [game_error ''Invalid bet amount or insufficient balance''])
          else
            let gameOptions =
                  \<lparr>rows = (case data_rows of None \<Rightarrow> 16 | Some r \<Rightarrow> if r = 0 then 16 else r),
                   riskMode = (case data_riskMode of None \<Rightarrow> medium | Some m \<Rightarrow> m)\<rparr>;
                result = calculateGameResult sha256 (serverSeed userState)
                           (clientSeed userState) (Num (of_int (nonce userState))) gameOptions;
                winAmount = nmul (to_number betAmount)
                              (to_number (finalMultiplier result));
                new_balance = nadd (nsub (balance userState) (to_number betAmount)) winAmount;
                userState' = userState\<lparr>balance := new_balance, nonce := nonce userState + 1\<rparr>
            in (states(socket_id \<mapsto> userState'),
                [game_result result betAmount winAmount new_balance]))"

text \<open>\<^verbatim>\<open>socket.on('disconnect', ...)\<close>\<close>

definition on_disconnect :: "string \<Rightarrow> userStates \<Rightarrow> userStates" where
  "on_disconnect socket_id states = states(socket_id := None)"

text \<open>The requests of a session, each with the random seed its handler would draw.\<close>

datatype request =
  new_server_seed string
| new_client_seed "string option" string
| play "number option" "riskMode option" "int option"

fun handle :: "hash \<Rightarrow> string \<Rightarrow> request \<Rightarrow> userStates \<Rightarrow> userStates \<times> event list" where
  "handle sha256 socket_id (new_server_seed g) states =
     on_new_server_seed sha256 socket_id g states"
| "handle sha256 socket_id (new_client_seed d g) states =
     on_new_client_seed socket_id d g states"
| "handle sha256 socket_id (play b m r) states =
     on_play sha256 socket_id b m r states"

text \<open>A sequence of requests on one connection, with everything emitted on the way.\<close>

fun run :: "hash \<Rightarrow> string \<Rightarrow> request list \<Rightarrow> userStates \<Rightarrow> userStates \<times> event list" where
  "run sha256 socket_id [] states = (states, [])"
| "run sha256 socket_id (r # rs) states =
     (case handle sha256 socket_id r states of
        (states', out) \<Rightarrow>
          (case run sha256 socket_id rs states' of (states'', out') \<Rightarrow> (states'', out @ out')))"

text \<open>
  The derivation inputs \<open>(serverSeed, clientSeed, nonce)\<close> of every play that was
  resolved, read off the \<^verbatim>\<open>game:result\<close> events in order.
\<close>

fun derivations :: "event list \<Rightarrow> (string \<times> string \<times> number) list" where
  "derivations [] = []"
| "derivations (game_result r b w bal # es) =
     (ProvablyFairResult.serverSeed r, ProvablyFairResult.clientSeed r,
      ProvablyFairResult.nonce r) # derivations es"
| "derivations (e # es) = derivations es"

section \<open>Notions of the specification\<close>

text \<open>
  The signed offset of a path: \<open>-1\<close> for each left, \<open>+1\<close> for each right.
\<close>

definition signed_offset :: "int list \<Rightarrow> int" where
  "signed_offset p = sum_list (map (\<lambda>d. if d = 0 then - 1 else 1) p)"



definition val10 :: "string \<Rightarrow> nat" where
  "val10 s = foldl (\<lambda>a c. 10 * a + (of_char c - 48)) 0 s"


text \<open>
  A digest function for the concrete instances below: 32 copies of one byte, whatever the
  message.
\<close>

definition constant_digest :: "8 word \<Rightarrow> hash" where
  "constant_digest b m = replicate 32 b"

text \<open>
  The table of sessions for the concrete instances below: one connection,
  \<^verbatim>\<open>socket-1\<close>, with the given seeds, nonce and balance.
\<close>

definition session :: "string \<Rightarrow> string \<Rightarrow> int \<Rightarrow> rat \<Rightarrow> userStates" where
  "session server_seed client_seed n b =
     [''socket-1'' \<mapsto> \<lparr>serverSeed = server_seed, clientSeed = client_seed, nonce = n, balance = Num b\<rparr>]"

section \<open>Rounding\<close>

lemma rne_cases: "rne x = \<lfloor>x\<rfloor> \<or> rne x = \<lfloor>x\<rfloor> + 1"
  by (simp add: rne_def Let_def)

lemma rne_mono_int:
  assumes "of_int n \<le> x" shows "n \<le> rne x"
proof -
  from assms have "n \<le> \<lfloor>x\<rfloor>" by (simp add: le_floor_iff)
  with rne_cases [of x] show ?thesis by auto
qed

lemma rne_of_int: "rne (of_int n) = n"
  by (simp add: rne_def)

lemma rne_le_int:
  assumes "x \<le> of_int n" shows "rne x \<le> n"
proof (cases "x = of_int n")
  case True
  then show ?thesis by (simp add: rne_of_int)
next
  case False
  with assms have "x < of_int n" by simp
  then have "\<lfloor>x\<rfloor> < n" by (simp add: floor_less_iff)
  with rne_cases [of x] show ?thesis by auto
qed

lemma rne_upper: "of_int (rne x) \<le> x + 1 / 2"
proof (cases "x - of_int \<lfloor>x\<rfloor> < 1 / 2")
  case True
  then have "rne x = \<lfloor>x\<rfloor>" by (simp add: rne_def Let_def)
  then show ?thesis using of_int_floor_le [of x] by linarith
next
  case False
  then have "of_int \<lfloor>x\<rfloor> + 1 \<le> x + 1 / 2" by simp
  moreover have "rat_of_int (rne x) \<le> of_int \<lfloor>x\<rfloor> + 1"
    using rne_cases [of x] by auto
  ultimately show ?thesis by simp
qed

lemma normalise_inv:
  "0 < m \<Longrightarrow> 0 < u \<Longrightarrow> normalise k m u = (m', u') \<Longrightarrow> m' * u' = m * u \<and> 0 < u' \<and> 0 < m'"
proof (induction k arbitrary: m u)
  case 0
  then show ?case by simp
next
  case (Suc k)
  show ?case
  proof (cases "2 ^ 53 \<le> m")
    case True
    with Suc.prems have "normalise k (m / 2) (u * 2) = (m', u')" by simp
    from Suc.IH [OF _ _ this] Suc.prems show ?thesis by simp
  next
    case False
    show ?thesis
    proof (cases "m < 2 ^ 52")
      case True
      with False Suc.prems have "normalise k (m * 2) (u / 2) = (m', u')" by simp
      from Suc.IH [OF _ _ this] Suc.prems show ?thesis by simp
    next
      case False
      with \<open>\<not> 2 ^ 53 \<le> m\<close> Suc.prems show ?thesis by simp
    qed
  qed
qed

lemma normalise_lt:
  "m < 2 ^ 53 \<Longrightarrow> normalise k m u = (m', u') \<Longrightarrow> m' < 2 ^ 53"
proof (induction k arbitrary: m u)
  case 0
  then show ?case by simp
next
  case (Suc k)
  show ?case
  proof (cases "m < 2 ^ 52")
    case True
    with Suc.prems have "normalise k (m * 2) (u / 2) = (m', u')" by simp
    moreover from True have "m * 2 < 2 ^ 53" by simp
    ultimately show ?thesis using Suc.IH by blast
  next
    case False
    with Suc.prems show ?thesis by simp
  qed
qed

lemma normalise_ge:
  "2 ^ 52 \<le> m * 2 ^ k \<Longrightarrow> normalise k m u = (m', u') \<Longrightarrow> 2 ^ 52 \<le> m'"
proof (induction k arbitrary: m u)
  case 0
  then show ?case by simp
next
  case (Suc k)
  show ?case
  proof (cases "2 ^ 53 \<le> m")
    case True
    with Suc.prems have n: "normalise k (m / 2) (u * 2) = (m', u')" by simp
    from True have "2 ^ 52 \<le> m / 2" by simp
    moreover have "(1::rat) \<le> 2 ^ k" by simp
    ultimately have "2 ^ 52 * 1 \<le> m / 2 * 2 ^ k"
      by (intro mult_mono) simp_all
    with Suc.IH [OF _ n] show ?thesis by simp
  next
    case False
    show ?thesis
    proof (cases "m < 2 ^ 52")
      case True
      with False Suc.prems have n: "normalise k (m * 2) (u / 2) = (m', u')" by simp
      from Suc.prems have "2 ^ 52 \<le> m * 2 * 2 ^ k" by (simp add: mult.assoc)
      from Suc.IH [OF this n] show ?thesis .
    next
      case False
      with \<open>\<not> 2 ^ 53 \<le> m\<close> Suc.prems show ?thesis by simp
    qed
  qed
qed

lemma normalise_int:
  "m < 2 ^ 53 \<Longrightarrow> m \<in> \<int> \<Longrightarrow> normalise k m u = (m', u') \<Longrightarrow> m' \<in> \<int>"
proof (induction k arbitrary: m u)
  case 0
  then show ?case by simp
next
  case (Suc k)
  show ?case
  proof (cases "m < 2 ^ 52")
    case True
    with Suc.prems have "normalise k (m * 2) (u / 2) = (m', u')" by simp
    moreover from True have "m * 2 < 2 ^ 53" by simp
    moreover from Suc.prems have "m * 2 \<in> \<int>" by simp
    ultimately show ?thesis using Suc.IH by blast
  next
    case False
    with Suc.prems show ?thesis by simp
  qed
qed

lemma fl_nonneg: "0 \<le> q \<Longrightarrow> 0 \<le> fl q"
proof (cases "q = 0")
  case True then show ?thesis by (simp add: fl_def)
next
  case False
  assume "0 \<le> q"
  with False have q: "0 < q" by simp
  obtain m u where n: "normalise 1074 \<bar>q\<bar> 1 = (m, u)" by (cases "normalise 1074 \<bar>q\<bar> 1")
  from normalise_inv [OF _ _ n] q have "0 < u" "0 < m" by simp_all
  then have "0 \<le> rne m" using rne_mono_int [of 0 m] by simp
  with \<open>0 < u\<close> q n show ?thesis by (simp add: fl_def)
qed

lemma fl_pos: 
  assumes "2 ^ 52 \<le> q * 2 ^ 1074" shows "0 < fl q"
proof -
  have "0 < q * 2 ^ 1074" using assms by (rule less_le_trans [rotated]) simp
  then have q: "0 < q" by (simp add: zero_less_mult_iff)
  obtain m u where n: "normalise 1074 \<bar>q\<bar> 1 = (m, u)" by (cases "normalise 1074 \<bar>q\<bar> 1")
  from normalise_inv [OF _ _ n] q have "0 < u" by simp
  from normalise_ge [OF _ n] assms q have "2 ^ 52 \<le> m" by simp
  then have "of_int (2 ^ 52) \<le> m" by simp
  then have "2 ^ 52 \<le> rne m" by (rule rne_mono_int)
  then have "0 < rne m" by simp
  with \<open>0 < u\<close> q n show ?thesis by (simp add: fl_def)
qed

lemma fl_of_int:
  assumes "0 \<le> a" "a < 2 ^ 53" shows "fl (of_int a) = of_int a"
proof (cases "a = 0")
  case True then show ?thesis by (simp add: fl_def)
next
  case False
  with assms have a: "0 < a" by simp
  obtain m u where n: "normalise 1074 \<bar>of_int a\<bar> 1 = (m, u)"
    by (cases "normalise 1074 \<bar>rat_of_int a\<bar> 1")
  have lt: "\<bar>rat_of_int a\<bar> < 2 ^ 53" using assms 
    by (metis abs_of_nonneg of_int_0_le_iff of_int_less_numeral_power_cancel_iff)
  from normalise_inv [OF _ _ n] a have mu: "m * u = of_int a" by simp
  from normalise_int [OF lt _ n] obtain b where "m = of_int b" by (auto elim: Ints_cases)
  then have "of_int (rne m) = m" by (simp add: rne_of_int)
  with mu a n show ?thesis by (simp add: fl_def)
qed

lemma fl_rel_upper:
  assumes "2 ^ 52 \<le> q * 2 ^ 1074" "q < 2 ^ 53" shows "fl q \<le> q * (1 + 1 / 2 ^ 53)"
proof -
  have "0 < q * 2 ^ 1074" using assms(1) by (rule less_le_trans [rotated]) simp
  then have q: "0 < q" by (simp add: zero_less_mult_iff)
  obtain m u where n: "normalise 1074 \<bar>q\<bar> 1 = (m, u)" by (cases "normalise 1074 \<bar>q\<bar> 1")
  from normalise_inv [OF _ _ n] q have u: "0 < u" and mu: "m * u = q" by simp_all
  from normalise_ge [OF _ n] assms q have m: "2 ^ 52 \<le> m" by simp
  have "fl q = of_int (rne m) * u" using q n by (simp add: fl_def)
  also have "\<dots> \<le> (m + 1 / 2) * u" using rne_upper [of m] u by (simp add: mult_right_mono)
  also have "\<dots> = q + u / 2" using mu by (simp add: algebra_simps)
  also have "u / 2 \<le> q / 2 ^ 53"
  proof -
    have "2 ^ 52 * u \<le> m * u" using m u by (simp add: mult_right_mono)
    with mu have "2 ^ 52 * u \<le> q" by simp
    then show ?thesis by simp
  qed
  finally show ?thesis by (simp add: algebra_simps)
qed

lemma rne_lower: "x - 1 < of_int (rne x)"
proof -
  have "x - 1 < of_int \<lfloor>x\<rfloor>" by linarith
  also have "rat_of_int \<lfloor>x\<rfloor> \<le> of_int (rne x)" using rne_cases [of x] by auto
  finally show ?thesis .
qed

lemma fl_rel_lower:
  assumes "2 ^ 52 \<le> q * 2 ^ 1074" shows "q * (1 - 1 / 2 ^ 52) \<le> fl q"
proof -
  have "0 < q * 2 ^ 1074" using assms by (rule less_le_trans [rotated]) simp
  then have q: "0 < q" by (simp add: zero_less_mult_iff)
  obtain m u where n: "normalise 1074 \<bar>q\<bar> 1 = (m, u)" by (cases "normalise 1074 \<bar>q\<bar> 1")
  from normalise_inv [OF _ _ n] q have u: "0 < u" and mu: "m * u = q" by simp_all
  from normalise_ge [OF _ n] assms q have m: "2 ^ 52 \<le> m" by simp
  have "2 ^ 52 * u \<le> m * u" using m u by (simp add: mult_right_mono)
  with mu have "u \<le> q / 2 ^ 52" by simp
  then have "q * (1 - 1 / 2 ^ 52) \<le> q - u" by (simp add: algebra_simps)
  also have "\<dots> = (m - 1) * u" using mu by (simp add: algebra_simps)
  also have "\<dots> \<le> of_int (rne m) * u" using rne_lower [of m] u by (simp add: mult_right_mono)
  also have "\<dots> = fl q" using q n by (simp add: fl_def)
  finally show ?thesis .
qed

text \<open>
  The result of \<open>fl\<close> in closed form, for a value whose scaling is known: this evaluates
  \<open>fl\<close> without running \<open>normalise\<close>.
\<close>

lemma normalise_scale_up:
  "2 ^ 52 \<le> m * 2 ^ j \<Longrightarrow> m * 2 ^ j < 2 ^ 53 \<Longrightarrow> j \<le> k \<Longrightarrow>
   normalise k m u = (m * 2 ^ j, u / 2 ^ j)"
proof (induction j arbitrary: k m u)
  case 0
  then show ?case by (cases k) simp_all
next
  case (Suc j)
  from Suc.prems(3) obtain k' where k: "k = Suc k'" "j \<le> k'" by (cases k) auto
  have "m * 2 \<le> m * 2 ^ Suc j"
  proof -
    have "0 < m * 2 ^ Suc j" using Suc.prems(1) by (rule less_le_trans [rotated]) simp
    then have "0 \<le> m" by (simp add: zero_less_mult_iff)
    moreover have "(2::rat) \<le> 2 ^ Suc j" by simp
    ultimately show ?thesis by (rule mult_left_mono [rotated])
  qed
  with Suc.prems(2) have m: "m < 2 ^ 52" by simp
  have "normalise k' (m * 2) (u / 2) = (m * 2 * 2 ^ j, u / 2 / 2 ^ j)"
    using Suc.prems k by (intro Suc.IH) (simp_all add: mult.assoc)
  with m k show ?case by (simp add: mult.assoc)
qed

lemma fl_scaled:
  assumes "2 ^ 52 \<le> q * 2 ^ j" and "q * 2 ^ j < 2 ^ 53" and "j \<le> 1074"
  shows "fl q = of_int (rne (q * 2 ^ j)) / 2 ^ j"
proof -
  have "0 < q * 2 ^ j" using assms(1) by (rule less_le_trans [rotated]) simp
  then have q: "0 < q" by (simp add: zero_less_mult_iff)
  have "normalise 1074 \<bar>q\<bar> 1 = (q * 2 ^ j, 1 / 2 ^ j)"
    using normalise_scale_up [OF assms, of 1] q by simp
  with q show ?thesis by (simp add: fl_def)
qed

text \<open>The literal \<^verbatim>\<open>0.1\<close>, for instance, is the binary64 number \<open>3602879701896397 / 2 ^ 55\<close>.\<close>

lemma fl_tenth: "fl (1 / 10) = 3602879701896397 / 36028797018963968"
proof -
  have "rne (1 / 10 * 2 ^ 56) = 7205759403792794" 
    by code_simp
  then show ?thesis using fl_scaled [of "1 / 10" 56] by simp
qed

lemma lit_pos:
  assumes "2 ^ 52 \<le> q * 2 ^ 1074" shows "\<exists>r. 0 < r \<and> lit q = Num r"
  using fl_pos [OF assms] by (simp add: lit_def)

section \<open>The multiplier tables are well formed\<close>

lemma MULTIPLIERS_length: "length (MULTIPLIERS t) = 17"
  by (cases t) simp_all

lemma MULTIPLIERS_rev: "rev (MULTIPLIERS t) = MULTIPLIERS t"
  by (cases t) simp_all

lemma MULTIPLIERS_pos: "x \<in> set (MULTIPLIERS t) \<Longrightarrow> \<exists>q. 0 < q \<and> x = Num q"
  by (cases t) (auto intro!: lit_pos)

text \<open>
  C6. For each of the three risk modes the multiplier table has exactly 17 entries, reads
  the same from both ends (\<open>table[i] = table[16 - i]\<close> for every \<open>i\<close> from 0 to 16), and
  every entry is a positive number.
\<close>

theorem multiplier_tables_integrity:
  "length (MULTIPLIERS t) = 17 \<and>
   (\<forall>i\<le>16. MULTIPLIERS t ! i = MULTIPLIERS t ! (16 - i)) \<and>
   (\<forall>i\<le>16. \<exists>q. 0 < q \<and> MULTIPLIERS t ! i = Num q)"
proof (intro conjI allI impI)
  show "length (MULTIPLIERS t) = 17" by (rule MULTIPLIERS_length)
next
  fix i :: nat
  assume i: "i \<le> 16"
  then have "rev (MULTIPLIERS t) ! i = MULTIPLIERS t ! (length (MULTIPLIERS t) - Suc i)"
    by (intro rev_nth) (simp add: MULTIPLIERS_length)
  then show "MULTIPLIERS t ! i = MULTIPLIERS t ! (16 - i)"
    by (simp add: MULTIPLIERS_rev MULTIPLIERS_length)
next
  fix i :: nat
  assume "i \<le> 16"
  then have "MULTIPLIERS t ! i \<in> set (MULTIPLIERS t)"
    by (intro nth_mem) (simp add: MULTIPLIERS_length)
  then show "\<exists>q. 0 < q \<and> MULTIPLIERS t ! i = Num q" by (rule MULTIPLIERS_pos)
qed

theorem multiplier_tables_integrity_witness:
  "length (MULTIPLIERS high) = 17 \<and>
   MULTIPLIERS high ! 1 = MULTIPLIERS high ! (16 - 1) \<and>
   (\<exists>q. 0 < q \<and> MULTIPLIERS high ! 1 = Num q)"
proof -
  have le: "(1::nat) \<le> 16" by simp
  from multiplier_tables_integrity [of high] le show ?thesis by blast
qed

section \<open>Payout resolution\<close>

lemma Math_max_Num: "Math_max (Num a) (Num b) = Num (max a b)"
  by (simp add: Math_max_def max_def)

lemma Math_min_Num: "Math_min (Num a) (Num b) = Num (min a b)"
  by (simp add: Math_min_def min_def)

lemma resolveMultiplier_int:
  "multiplierIndex (Num (of_int b)) (MULTIPLIERS t) = Num (of_int (max 0 (min b 16))) \<and>
   resolveMultiplier (Num (of_int b)) t = Some (MULTIPLIERS t ! nat (max 0 (min b 16)))"
proof -
  let ?k = "max 0 (min b 16)"
  have idx: "multiplierIndex (Num (of_int b)) (MULTIPLIERS t) = Num (of_int ?k)"
    by (simp add: multiplierIndex_def MULTIPLIERS_length Math_max_Num Math_min_Num min_def max_def)
  have k: "0 \<le> ?k" "?k \<le> 16" by simp_all
  then have "js_index (MULTIPLIERS t) (Num (of_int ?k)) = Some (MULTIPLIERS t ! nat ?k)"
    unfolding js_index.simps by (simp only: MULTIPLIERS_length floor_of_int) auto
  with idx show ?thesis
    by (simp add: resolveMultiplier_def)
qed

text \<open>
  C5. For every integer bin index and every risk mode, the index is clamped into
  \<open>[0, table.length - 1]\<close> before the table is read, so the lookup always returns an entry
  of that mode's table: the out-of-bounds result (\<^verbatim>\<open>undefined\<close>) cannot occur.
\<close>

theorem resolveMultiplier_total:
  "multiplierIndex (Num (of_int b)) (MULTIPLIERS t) =
     Num (of_int (max 0 (min b (int (length (MULTIPLIERS t)) - 1)))) \<and>
   nat (max 0 (min b (int (length (MULTIPLIERS t)) - 1))) < length (MULTIPLIERS t) \<and>
   resolveMultiplier (Num (of_int b)) t =
     Some (MULTIPLIERS t ! nat (max 0 (min b (int (length (MULTIPLIERS t)) - 1))))"
  using resolveMultiplier_int [of b t] by (simp add: MULTIPLIERS_length)

text \<open>
  A bin that is not a number has no multiplier: \<^verbatim>\<open>Math.max(0, NaN)\<close> is NaN, and an
  array read at NaN is \<^verbatim>\<open>undefined\<close>.
\<close>

lemma resolveMultiplier_NaN: "resolveMultiplier NaN t = None"
  by (simp add: resolveMultiplier_def multiplierIndex_def Math_max_def Math_min_def)

section \<open>The terminal bin\<close>

lemma foldl_position:
  "foldl (\<lambda>pos direction. pos + (if direction = 0 then - 1 else 1)) a p = a + signed_offset p"
  by (induction p arbitrary: a) (simp_all add: signed_offset_def)

lemma signed_offset_lower: "- int (length p) \<le> signed_offset p"
  by (induction p) (simp_all add: signed_offset_def)

lemma signed_offset_upper: "signed_offset p \<le> int (length p)"
  by (induction p) (simp_all add: signed_offset_def)

lemma calculateFinalBin_eq:
  assumes "p \<noteq> []"
  shows "calculateFinalBin p =
           Num (of_int (min \<lfloor>fl (of_int (signed_offset p + int (length p)) *
                                 fl (17 / of_int (int (length p) * 2)))\<rfloor> 16))"
    and "0 \<le> \<lfloor>fl (of_int (signed_offset p + int (length p)) *
                   fl (17 / of_int (int (length p) * 2)))\<rfloor>"
proof -
  let ?L = "int (length p)"
  let ?sf = "fl (17 / of_int (?L * 2))"
  let ?x = "fl (of_int (signed_offset p + ?L) * ?sf)"
  from assms have L: "0 < ?L" by simp
  show "calculateFinalBin p = Num (of_int (min \<lfloor>?x\<rfloor> 16))"
    using L by (simp add: calculateFinalBin_def foldl_position Math_min_Num Let_def)
  have "0 \<le> ?sf" by (intro fl_nonneg) (use L in simp)
  moreover have "(0::rat) \<le> of_int (signed_offset p + ?L)"
    using signed_offset_lower [of p] by simp
  ultimately have "0 \<le> of_int (signed_offset p + ?L) * ?sf" by (simp only: mult_nonneg_nonneg)
  then have "0 \<le> ?x" by (rule fl_nonneg)
  then show "0 \<le> \<lfloor>?x\<rfloor>" by simp
qed

lemma calculateFinalBin_range:
  assumes "p \<noteq> []"
  shows "\<exists>k. calculateFinalBin p = Num (of_int k) \<and> 0 \<le> k \<and> k \<le> 16"
  using calculateFinalBin_eq [OF assms] by (intro exI conjI) (assumption, simp_all)

text \<open>
  An empty path has no bin: the scale factor is \<open>17 / 0\<close>, an infinity, and its product
  with the position \<open>0\<close> is NaN.
\<close>

lemma calculateFinalBin_Nil: "calculateFinalBin [] = NaN"
  by (simp add: calculateFinalBin_def inf_of_def Math_min_def)

text \<open>
  The two roundings of the scaled position, and the bin in exact arithmetic. The scaled
  position \<open>17 n / (2 L)\<close> is an integer only at \<open>n = 0\<close> and \<open>n = 2 L\<close> when 17 does not
  divide the row count \<open>L\<close>; elsewhere it keeps a distance of \<open>1 / (2 L)\<close> from the
  integers, far more than the rounding error, so the floor is the exact one.
\<close>

lemma scaled_product_error:
  fixes L n :: int
  assumes L: "0 < L" "L < 2 ^ 32" and n: "0 < n" "n \<le> 2 * L"
  shows "of_int n * (17 / of_int (L * 2)) * (1 - 1 / 2 ^ 51) \<le> fl (of_int n * fl (17 / of_int (L * 2)))"
    and "fl (of_int n * fl (17 / of_int (L * 2))) \<le> of_int n * (17 / of_int (L * 2)) * (1 + 1 / 2 ^ 51)"
proof -
  let ?q = "17 / rat_of_int (L * 2)"
  let ?c = "fl ?q"
  let ?x = "rat_of_int n * ?q"
  let ?z = "rat_of_int n * ?c"
  let ?y = "fl ?z"
  have d: "0 < rat_of_int (L * 2)" "rat_of_int (L * 2) \<le> 2 ^ 33" "2 \<le> rat_of_int (L * 2)"
    using L by simp_all
  have qlo: "17 / 2 ^ 33 \<le> ?q" using d by (intro divide_left_mono) simp_all
  have qhi: "?q \<le> 17 / 2" using d by (intro divide_left_mono) simp_all
  have qpos: "0 < ?q" using L by simp
  have "(2::rat) ^ 52 \<le> 17 / 2 ^ 33 * 2 ^ 1074" by simp
  also have "\<dots> \<le> ?q * 2 ^ 1074" using qlo by (intro mult_right_mono) simp_all
  finally have qa: "2 ^ 52 \<le> ?q * 2 ^ 1074" .
  have qb: "?q < 2 ^ 53" using qhi by simp
  have clo: "?q * (1 - 1 / 2 ^ 52) \<le> ?c" by (rule fl_rel_lower [OF qa])
  have chi: "?c \<le> ?q * (1 + 1 / 2 ^ 53)" by (rule fl_rel_upper [OF qa qb])
  have n0: "0 \<le> rat_of_int n" "1 \<le> rat_of_int n" using n by simp_all
  have zlo: "?x * (1 - 1 / 2 ^ 52) \<le> ?z"
    using mult_left_mono [OF clo n0(1)] by (simp add: mult.assoc)
  have zhi: "?z \<le> ?x * (1 + 1 / 2 ^ 53)"
    using mult_left_mono [OF chi n0(1)] by (simp add: mult.assoc)
  have xlo: "17 / 2 ^ 33 \<le> ?x"
  proof -
    have "0 \<le> ?q" using qpos by (rule less_imp_le)
    with n0(2) have "1 * ?q \<le> rat_of_int n * ?q" by (rule mult_right_mono)
    then have "?q \<le> ?x" by (simp only: mult_1)
    with qlo show ?thesis by (rule order_trans)
  qed
  have xhi: "?x \<le> 17"
  proof -
    have "rat_of_int n \<le> rat_of_int (L * 2)" using n by simp
    then have "rat_of_int n / rat_of_int (L * 2) \<le> 1" using d by simp
    then have "17 * (rat_of_int n / rat_of_int (L * 2)) \<le> 17 * 1" by (intro mult_left_mono) simp_all
    then show ?thesis by simp
  qed
  have x0: "0 \<le> ?x" using xlo by simp
  have "(2::rat) ^ 52 \<le> 17 / 2 ^ 33 * (1 - 1 / 2 ^ 52) * 2 ^ 1074" by simp
  also have "\<dots> \<le> ?x * (1 - 1 / 2 ^ 52) * 2 ^ 1074"
    using xlo by (intro mult_right_mono) simp_all
  also have "\<dots> \<le> ?z * 2 ^ 1074" using zlo by (intro mult_right_mono) simp_all
  finally have za: "2 ^ 52 \<le> ?z * 2 ^ 1074" .
  have "?x * (1 + 1 / 2 ^ 53) \<le> 17 * (1 + 1 / 2 ^ 53)"
    using xhi by (intro mult_right_mono) simp_all
  with zhi have "?z \<le> 17 * (1 + 1 / 2 ^ 53)" by (rule order_trans)
  then have zb: "?z < 2 ^ 53" by simp
  have ylo: "?z * (1 - 1 / 2 ^ 52) \<le> ?y" by (rule fl_rel_lower [OF za])
  have yhi: "?y \<le> ?z * (1 + 1 / 2 ^ 53)" by (rule fl_rel_upper [OF za zb])
  have "?x * (1 - 1 / 2 ^ 51) \<le> ?x * ((1 - 1 / 2 ^ 52) * (1 - 1 / 2 ^ 52))"
    using x0 by (intro mult_left_mono) simp_all
  also have "\<dots> = ?x * (1 - 1 / 2 ^ 52) * (1 - 1 / 2 ^ 52)" by (simp only: mult.assoc)
  also have "\<dots> \<le> ?z * (1 - 1 / 2 ^ 52)" using zlo by (intro mult_right_mono) simp_all
  also note ylo
  finally show "?x * (1 - 1 / 2 ^ 51) \<le> ?y" .
  note yhi
  also have "?z * (1 + 1 / 2 ^ 53) \<le> ?x * (1 + 1 / 2 ^ 53) * (1 + 1 / 2 ^ 53)"
    using zhi by (intro mult_right_mono) simp_all
  also have "\<dots> = ?x * ((1 + 1 / 2 ^ 53) * (1 + 1 / 2 ^ 53))" by (simp only: mult.assoc)
  also have "\<dots> \<le> ?x * (1 + 1 / 2 ^ 51)" using x0 by (intro mult_left_mono) simp_all
  finally show "?y \<le> ?x * (1 + 1 / 2 ^ 51)" .
qed


lemma coprime_17:
  fixes m :: int
  assumes "\<not> 17 dvd m"
  shows "coprime 17 m"
proof -
  let ?g = "gcd 17 m"
  have g17: "?g dvd 17" and gm: "?g dvd m" by simp_all
  have "?g \<noteq> 0" by simp
  moreover have "0 \<le> ?g" by simp
  ultimately have "1 \<le> ?g" by linarith
  moreover have "?g \<le> 17" using g17 by (intro zdvd_imp_le) simp_all
  ultimately have "?g = 1 \<or> ?g = 2 \<or> ?g = 3 \<or> ?g = 4 \<or> ?g = 5 \<or> ?g = 6 \<or> ?g = 7 \<or> ?g = 8 \<or>
      ?g = 9 \<or> ?g = 10 \<or> ?g = 11 \<or> ?g = 12 \<or> ?g = 13 \<or> ?g = 14 \<or> ?g = 15 \<or> ?g = 16 \<or> ?g = 17"
    by arith
  moreover have "?g \<noteq> 17" using gm assms by metis
  ultimately have "?g = 1" using g17 by (elim disjE) simp_all
  then show ?thesis by (simp only: coprime_iff_gcd_eq_1)
qed

lemma floor_scaled_product:
  fixes L n :: int
  assumes L: "0 < L" "L < 2 ^ 32" and nd: "\<not> 17 dvd L" and n: "0 < n" "n < 2 * L"
  shows "\<lfloor>fl (of_int n * fl (17 / of_int (L * 2)))\<rfloor> = (17 * n) div (L * 2)"
proof -
  let ?x = "rat_of_int n * (17 / rat_of_int (L * 2))"
  let ?y = "fl (rat_of_int n * fl (17 / rat_of_int (L * 2)))"
  let ?k = "(17 * n) div (L * 2)"
  let ?r = "(17 * n) mod (L * 2)"
  have d: "0 < rat_of_int (L * 2)" using L by simp
  have "coprime 17 (L * 2)" using coprime_17 [OF nd] by simp
  then have "coprime (L * 2) 17" by (simp only: coprime_commute)
  then have "L * 2 dvd 17 * n \<longleftrightarrow> L * 2 dvd n" by (rule coprime_dvd_mult_right_iff)
  moreover have "\<not> L * 2 dvd n" using n by (auto dest: zdvd_imp_le)
  ultimately have "?r \<noteq> 0" by (simp add: dvd_eq_mod_eq_0)
  moreover have "0 \<le> ?r" "?r < L * 2" using L by simp_all
  ultimately have r: "1 \<le> ?r" "?r \<le> L * 2 - 1" by linarith+
  have split: "17 * n = ?k * (L * 2) + ?r" by (rule div_mult_mod_eq [symmetric])
  have "?x = rat_of_int (17 * n) / rat_of_int (L * 2)" by simp
  also have "\<dots> = rat_of_int (?k * (L * 2) + ?r) / rat_of_int (L * 2)" by (simp only: split [symmetric])
  also have "\<dots> = rat_of_int ?k + rat_of_int ?r / rat_of_int (L * 2)"
    using d by (simp add: add_divide_distrib)
  finally have x: "?x = rat_of_int ?k + rat_of_int ?r / rat_of_int (L * 2)" .
  have frac_lo: "1 / 2 ^ 33 \<le> rat_of_int ?r / rat_of_int (L * 2)"
  proof -
    have "rat_of_int (L * 2) \<le> 2 ^ 33" using L by simp
    then have "1 / 2 ^ 33 \<le> 1 / rat_of_int (L * 2)" using d by (intro divide_left_mono) simp_all
    also have "\<dots> \<le> rat_of_int ?r / rat_of_int (L * 2)"
      using r(1) d by (intro divide_right_mono) simp_all
    finally show ?thesis .
  qed
  have frac_hi: "rat_of_int ?r / rat_of_int (L * 2) \<le> 1 - 1 / 2 ^ 33"
  proof -
    have "rat_of_int ?r \<le> rat_of_int (L * 2) - 1" using r(2) by (simp flip: of_int_diff)
    then have "rat_of_int ?r / rat_of_int (L * 2) \<le> (rat_of_int (L * 2) - 1) / rat_of_int (L * 2)"
      using d by (intro divide_right_mono) simp_all
    also have "\<dots> = 1 - 1 / rat_of_int (L * 2)" using d by (simp add: diff_divide_distrib)
    also have "\<dots> \<le> 1 - 1 / 2 ^ 33"
    proof -
      have "rat_of_int (L * 2) \<le> 2 ^ 33" using L by simp
      then have "1 / 2 ^ 33 \<le> 1 / rat_of_int (L * 2)" using d by (intro divide_left_mono) simp_all
      then show ?thesis by simp
    qed
    finally show ?thesis .
  qed
  have k0: "0 \<le> ?k" using L n by (simp add: pos_imp_zdiv_nonneg_iff)
  have x0: "0 \<le> ?x" using n d by simp
  have xhi: "?x \<le> 17"
  proof -
    have "rat_of_int n \<le> rat_of_int (L * 2)" using n by simp
    then have "rat_of_int n / rat_of_int (L * 2) \<le> 1" using d by simp
    then have "17 * (rat_of_int n / rat_of_int (L * 2)) \<le> 17 * 1" by (intro mult_left_mono) simp_all
    then show ?thesis by simp
  qed
  have n': "n \<le> 2 * L" using n by simp
  have ylo: "?x * (1 - 1 / 2 ^ 51) \<le> ?y" and yhi: "?y \<le> ?x * (1 + 1 / 2 ^ 51)"
    using scaled_product_error [OF L n(1) n'] by simp_all
  have "?x * (1 / 2 ^ 51) \<le> 17 * (1 / 2 ^ 51)" using xhi by (intro mult_right_mono) simp_all
  then have err: "?x * (1 / 2 ^ 51) \<le> 1 / 2 ^ 33" by simp
  have "rat_of_int ?k \<le> ?x - 1 / 2 ^ 33" using x frac_lo by simp
  also have "\<dots> \<le> ?x - ?x * (1 / 2 ^ 51)" using err by simp
  also have "\<dots> = ?x * (1 - 1 / 2 ^ 51)" by (simp add: algebra_simps)
  also note ylo
  finally have lo: "rat_of_int ?k \<le> ?y" .
  have hi: "?y < rat_of_int ?k + 1"
  proof -
    have "?y \<le> ?x + ?x * (1 / 2 ^ 51)" using yhi by (simp add: algebra_simps)
    also have "\<dots> \<le> ?x + 17 * (1 / 2 ^ 51)" using xhi by simp
    also have "\<dots> < ?x + 1 / 2 ^ 33" by simp
    also have "\<dots> \<le> rat_of_int ?k + 1" using x frac_hi by simp
    finally show ?thesis .
  qed
  from lo hi show ?thesis by (intro floor_unique) simp_all
qed


lemma calculateFinalBin_exact:
  assumes ne: "p \<noteq> []" and nd: "\<not> 17 dvd length p" and small: "length p < 2 ^ 32"
  shows "calculateFinalBin p =
           Num (of_int (min \<lfloor>rat_of_int (signed_offset p + int (length p)) *
                              (17 / of_int (int (length p) * 2))\<rfloor> 16))"
proof -
  let ?L = "int (length p)"
  let ?n = "signed_offset p + ?L"
  let ?y = "fl (rat_of_int ?n * fl (17 / rat_of_int (?L * 2)))"
  let ?x = "rat_of_int ?n * (17 / rat_of_int (?L * 2))"
  have L: "0 < ?L" "?L < 2 ^ 32" using ne small by simp_all
  have nd': "\<not> 17 dvd ?L" using nd by (simp flip: int_dvd_int_iff)
  have n: "0 \<le> ?n" "?n \<le> 2 * ?L"
    using signed_offset_lower [of p] signed_offset_upper [of p] by simp_all
  have x: "\<lfloor>?x\<rfloor> = (17 * ?n) div (?L * 2)"
  proof -
    have "?x = rat_of_int (17 * ?n) / rat_of_int (?L * 2)" by simp
    then show ?thesis by (simp only: floor_divide_of_int_eq)
  qed
  have bin: "calculateFinalBin p = Num (of_int (min \<lfloor>?y\<rfloor> 16))"
    by (rule calculateFinalBin_eq(1) [OF ne])
  consider "?n = 0" | "0 < ?n" "?n < 2 * ?L" | "?n = 2 * ?L" using n by linarith
  then have "min \<lfloor>?y\<rfloor> 16 = min \<lfloor>?x\<rfloor> 16"
  proof cases
    case 1
    then show ?thesis by (simp add: fl_def)
  next
    case 2
    then have "\<lfloor>?y\<rfloor> = (17 * ?n) div (?L * 2)"
      by (intro floor_scaled_product L nd')
    with x show ?thesis by simp
  next
    case 3
    have pos: "0 < ?n" using 3 L by simp
    have xv: "?x = 17" using 3 L by simp
    have "(16::rat) \<le> 17 * (1 - 1 / 2 ^ 51)" by simp
    also have "\<dots> \<le> ?y" using scaled_product_error(1) [OF L pos n(2)] by (simp only: xv)
    finally have "16 \<le> \<lfloor>?y\<rfloor>" by (simp add: le_floor_iff)
    with xv show ?thesis by simp
  qed
  with bin show ?thesis by simp
qed

text \<open>
  With 833 rows (a multiple of 17) the two roundings matter: 49 rights and 784 lefts scale
  to exactly 1, but binary64 arithmetic gives \<open>0.9999999999999999\<close> and the bin is 0.
\<close>

lemma floor_scaled_product_833:
  "\<lfloor>fl (98 * fl (17 / rat_of_int (833 * 2)))\<rfloor> = 0 \<and> \<lfloor>98 * (17 / rat_of_int (833 * 2))\<rfloor> = 1"
proof -
  have "rne (1 / 98 * 2 ^ 59) = 5882252574524729" by code_simp
  then have c: "fl (17 / rat_of_int (833 * 2)) = 5882252574524729 / 2 ^ 59"
    using fl_scaled [of "1 / 98" 59] by simp
  have "rne (98 * (5882252574524729 / 2 ^ 59) * 2 ^ 53) = 9007199254740991" by code_simp
  then have y: "fl (98 * (5882252574524729 / 2 ^ 59)) = 9007199254740991 / 2 ^ 53"
    using fl_scaled [of "98 * (5882252574524729 / 2 ^ 59)" 53] by simp
  have "\<lfloor>9007199254740991 / 2 ^ 53 :: rat\<rfloor> = 0" by (rule floor_unique) simp_all
  then have "\<lfloor>fl (98 * fl (17 / rat_of_int (833 * 2)))\<rfloor> = 0" by (simp only: c y)
  then show ?thesis by simp
qed

lemma signed_offset_replicate:
  "signed_offset (replicate a 1 @ replicate b 0) = int a - int b"
proof -
  have "signed_offset (replicate a 1 @ xs) = int a + signed_offset xs" for xs
    by (induction a) (simp_all add: signed_offset_def)
  moreover have "signed_offset (replicate b 0) = - int b"
    by (induction b) (simp_all add: signed_offset_def)
  ultimately show ?thesis by simp
qed

lemma calculateFinalBin_833:
  "calculateFinalBin (replicate 49 1 @ replicate 784 0) = Num 0"
proof -
  let ?p = "replicate 49 1 @ replicate 784 0 :: int list"
  have ne: "?p \<noteq> []" by simp
  have off: "signed_offset ?p = - 735" by (simp add: signed_offset_replicate)
  have len: "int (length ?p) = 833" by simp
  have "\<lfloor>fl (rat_of_int (- 735 + 833) * fl (17 / rat_of_int (833 * 2)))\<rfloor> = 0"
    using floor_scaled_product_833 by simp
  then have "\<lfloor>fl (rat_of_int (signed_offset ?p + int (length ?p)) *
               fl (17 / rat_of_int (int (length ?p) * 2)))\<rfloor> = 0"
    by (simp only: off len)
  then show ?thesis by (simp only: calculateFinalBin_eq(1) [OF ne]) simp
qed

text \<open>
  C4. For every non-empty path the terminal bin is
  \<open>floor((offset + rowCount) * (17 / (rowCount * 2)))\<close> clamped to \<open>[0, 16]\<close>, where the
  offset adds \<open>-1\<close> per left and \<open>+1\<close> per right, the row count is the length of the path,
  and the division and the multiplication are those of binary64 arithmetic, as in the
  source. Consequently the bin lies in \<open>[0, 16]\<close> for every non-empty path, in particular
  for all paths of length 8, 12 and 16. When the row count is not a multiple of 17 (so for
  8, 12 and 16) the same formula in exact arithmetic gives the same bin.
\<close>

theorem calculateFinalBin_formula:
  assumes "p \<noteq> []"
  shows "calculateFinalBin p =
           Num (of_int (max 0 (min 16
             \<lfloor>fl (of_int (signed_offset p + int (length p)) *
                  fl (17 / of_int (int (length p) * 2)))\<rfloor>))) \<and>
         (\<exists>k. calculateFinalBin p = Num (of_int k) \<and> 0 \<le> k \<and> k \<le> 16) \<and>
         (\<not> 17 dvd length p \<and> length p < 2 ^ 32 \<longrightarrow>
            calculateFinalBin p =
              Num (of_int (max 0 (min 16
                \<lfloor>rat_of_int (signed_offset p + int (length p)) *
                   (17 / of_int (int (length p) * 2))\<rfloor>))))"
proof (intro conjI impI)
  let ?x = "fl (of_int (signed_offset p + int (length p)) * fl (17 / of_int (int (length p) * 2)))"
  from calculateFinalBin_eq [OF assms]
  have bin: "calculateFinalBin p = Num (of_int (min \<lfloor>?x\<rfloor> 16))" and "0 \<le> \<lfloor>?x\<rfloor>" .
  then have "max 0 (min 16 \<lfloor>?x\<rfloor>) = min \<lfloor>?x\<rfloor> 16" by simp
  with bin show "calculateFinalBin p = Num (of_int (max 0 (min 16 \<lfloor>?x\<rfloor>)))" by simp
next
  show "\<exists>k. calculateFinalBin p = Num (of_int k) \<and> 0 \<le> k \<and> k \<le> 16"
    by (rule calculateFinalBin_range [OF assms])
next
  let ?e = "rat_of_int (signed_offset p + int (length p)) * (17 / of_int (int (length p) * 2))"
  assume "\<not> 17 dvd length p \<and> length p < 2 ^ 32"
  then have bin: "calculateFinalBin p = Num (of_int (min \<lfloor>?e\<rfloor> 16))"
    using calculateFinalBin_exact [OF assms] by blast
  have "0 \<le> signed_offset p + int (length p)" using signed_offset_lower [of p] by simp
  then have "0 \<le> ?e" by simp
  then have "0 \<le> \<lfloor>?e\<rfloor>" by simp
  then have "max 0 (min 16 \<lfloor>?e\<rfloor>) = min \<lfloor>?e\<rfloor> 16" by simp
  with bin show "calculateFinalBin p = Num (of_int (max 0 (min 16 \<lfloor>?e\<rfloor>)))" by simp
qed

theorem calculateFinalBin_formula_witness:
  "[1, 0, 0, 1, 1, 1, 0, 1] \<noteq> ([] :: int list) \<and>
   \<not> 17 dvd length [1, 0, 0, 1, 1, 1, 0, 1 :: int] \<and>
   length [1, 0, 0, 1, 1, 1, 0, 1 :: int] < 2 ^ 32 \<and>
   calculateFinalBin [1, 0, 0, 1, 1, 1, 0, 1] =
     Num (of_int (max 0 (min 16
       \<lfloor>fl (of_int (signed_offset [1, 0, 0, 1, 1, 1, 0, 1] + int (length [1, 0, 0, 1, 1, 1, 0, 1 :: int])) *
            fl (17 / of_int (int (length [1, 0, 0, 1, 1, 1, 0, 1 :: int]) * 2)))\<rfloor>))) \<and>
   calculateFinalBin [1, 0, 0, 1, 1, 1, 0, 1] = Num 10"
proof -
  let ?p = "[1, 0, 0, 1, 1, 1, 0, 1] :: int list"
  have ne: "?p \<noteq> []" by simp
  have len: "length ?p = 8" by simp
  have nd: "\<not> 17 dvd length ?p \<and> length ?p < 2 ^ 32" by (simp only: len) simp
  have off: "signed_offset ?p = 2" by (simp add: signed_offset_def)
  from calculateFinalBin_formula [OF ne] nd
  have f: "calculateFinalBin ?p =
      Num (of_int (max 0 (min 16
       \<lfloor>fl (of_int (signed_offset ?p + int (length ?p)) *
            fl (17 / of_int (int (length ?p) * 2)))\<rfloor>)))"
    and e: "calculateFinalBin ?p =
      Num (of_int (max 0 (min 16
        \<lfloor>rat_of_int (signed_offset ?p + int (length ?p)) * (17 / of_int (int (length ?p) * 2))\<rfloor>)))"
    by blast+
  have "\<lfloor>rat_of_int (2 + int 8) * (17 / of_int (int 8 * 2))\<rfloor> = 10"
    by (simp add: floor_unique)
  with e have "calculateFinalBin ?p = Num 10" by (simp only: off len) simp
  with ne nd f show ?thesis by blast
qed

section \<open>The unit-interval sample\<close>














section \<open>The path\<close>

lemma calculatePath_loop_eq:
  "calculatePath_loop sha256 server_seed client_seed n row_count i acc =
     acc @ map (\<lambda>j. if nlt (deterministicRandom sha256 server_seed client_seed (nadd n (Num (of_int j)))) (Num (1 / 2))
                     then 0 else 1) [i..row_count - 1]"
proof (induction sha256 server_seed client_seed n row_count i acc rule: calculatePath_loop.induct)
  case (1 sha256 server_seed client_seed n row_count i acc)
  show ?case
  proof (cases "i < row_count")
    case True
    then have "[i..row_count - 1] = i # [i + 1..row_count - 1]" by (simp add: upto_rec1)
    with True "1.IH" [OF True refl] show ?thesis
      by (subst calculatePath_loop.simps) (simp add: Let_def)
  next
    case False
    then show ?thesis by (subst calculatePath_loop.simps) simp
  qed
qed

lemma calculatePath_eq:
  "calculatePath sha256 server_seed client_seed n row_count =
     map (\<lambda>j. if nlt (deterministicRandom sha256 server_seed client_seed (nadd n (Num (of_int j)))) (Num (1 / 2))
               then 0 else 1) [0..row_count - 1]"
  by (simp add: calculatePath_def calculatePath_loop_eq)

lemma calculatePath_length:
  "length (calculatePath sha256 server_seed client_seed n row_count) = nat row_count"
  by (simp add: calculatePath_eq)


section \<open>Printing numbers and paths\<close>

lemma dec_digit_props:
  assumes "n < 10"
  shows "of_char (dec_digit n) = 48 + n" "dec_digit n \<noteq> CHR '',''" "dec_digit n \<noteq> CHR ''-''"
proof -
  from assms have "n \<in> {0, 1, 2, 3, 4, 5, 6, 7, 8, 9}" by simp arith
  then show "of_char (dec_digit n) = 48 + n" "dec_digit n \<noteq> CHR '',''" "dec_digit n \<noteq> CHR ''-''"
    by (auto simp: dec_digit_def)
qed



lemma val10_digits10: "val10 (digits10 n) = n"
proof (induction n rule: digits10.induct)
  case (1 n)
  show ?case
  proof (cases "n < 10")
    case True
    then show ?thesis by (subst digits10.simps) (simp add: val10_def dec_digit_props)
  next
    case False
    with "1.IH" have "val10 (digits10 (n div 10)) = n div 10" by simp
    with False show ?thesis
      by (subst digits10.simps) (simp add: val10_def dec_digit_props)
  qed
qed

lemma digits10_nonempty: "digits10 n \<noteq> []"
  by (subst digits10.simps) simp






lemma digits10_chars: "c \<in> set (digits10 n) \<Longrightarrow> c \<noteq> CHR '','' \<and> c \<noteq> CHR ''-''"
proof (induction n rule: digits10.induct)
  case (1 n)
  show ?case
  proof (cases "n < 10")
    case True
    with "1.prems" show ?thesis
      by (subst (asm) digits10.simps) (auto simp: dec_digit_props)
  next
    case False
    with "1.prems" "1.IH" show ?thesis
      by (subst (asm) digits10.simps) (auto simp: dec_digit_props)
  qed
qed

lemma decimal_of_int_inj: "decimal_of_int i = decimal_of_int j \<Longrightarrow> i = j"
proof -
  assume eq: "decimal_of_int i = decimal_of_int j"
  have neg: "CHR ''-'' # digits10 a \<noteq> digits10 b" for a b
    using digits10_chars [of "CHR ''-''" b] by (metis list.set_intros(1))
  consider "i < 0" "j < 0" | "0 \<le> i" "0 \<le> j" | "i < 0" "0 \<le> j" | "0 \<le> i" "j < 0" by linarith
  then show ?thesis
  proof cases
    case 1
    with eq have "digits10 (nat (- i)) = digits10 (nat (- j))" by (simp add: decimal_of_int_def)
    then have "nat (- i) = nat (- j)" by (metis val10_digits10)
    with 1 show ?thesis by simp
  next
    case 2
    with eq have "digits10 (nat i) = digits10 (nat j)" by (simp add: decimal_of_int_def)
    then have "nat i = nat j" by (metis val10_digits10)
    with 2 show ?thesis by simp
  next
    case 3
    with eq neg show ?thesis by (simp add: decimal_of_int_def)
  next
    case 4
    with eq neg [of "nat (- j)" "nat i"] show ?thesis by (simp add: decimal_of_int_def)
  qed
qed

lemma decimal_of_int_no_comma: "CHR '','' \<notin> set (decimal_of_int i)"
  using digits10_chars by (auto simp: decimal_of_int_def)

lemma decimal_of_int_nonempty: "decimal_of_int i \<noteq> []"
  by (simp add: decimal_of_int_def digits10_nonempty)

lemma join_commas_Cons:
  "join_commas (s # ts) = s @ (if ts = [] then [] else CHR '','' # join_commas ts)"
  by (cases ts) simp_all

lemma join_commas_inj:
  assumes "\<forall>s\<in>set xs \<union> set ys. CHR '','' \<notin> set s \<and> s \<noteq> []"
    and "join_commas xs = join_commas ys"
  shows "xs = ys"
  using assms
proof (induction xs arbitrary: ys)
  case Nil
  then show ?case by (cases ys) (auto simp: join_commas_Cons)
next
  case (Cons x xs)
  show ?case
  proof (cases ys)
    case Nil
    with Cons.prems show ?thesis by (auto simp: join_commas_Cons)
  next
    case (Cons y ys')
    let ?rx = "if xs = [] then [] else CHR '','' # join_commas xs"
    let ?ry = "if ys' = [] then [] else CHR '','' # join_commas ys'"
    from Cons.prems Cons have cx: "CHR '','' \<notin> set x" and cy: "CHR '','' \<notin> set y" by auto
    from Cons.prems(2) Cons have eq: "x @ ?rx = y @ ?ry" by (simp only: join_commas_Cons)
    have tx: "takeWhile (\<lambda>c. c \<noteq> CHR '','') (x @ ?rx) = x"
      using cx by (auto simp: takeWhile_append takeWhile_eq_all_conv)
    have ty: "takeWhile (\<lambda>c. c \<noteq> CHR '','') (y @ ?ry) = y"
      using cy by (auto simp: takeWhile_append takeWhile_eq_all_conv)
    from eq tx ty have xy: "x = y" by simp
    with eq have r: "?rx = ?ry" by simp
    have "xs = ys'"
    proof (cases "xs = []")
      case True
      with r show ?thesis by (auto split: if_splits)
    next
      case False
      with r have "ys' \<noteq> []" "join_commas xs = join_commas ys'" by (auto split: if_splits)
      moreover from Cons.prems(1) Cons
      have "\<forall>s\<in>set xs \<union> set ys'. CHR '','' \<notin> set s \<and> s \<noteq> []" by auto
      ultimately show ?thesis using Cons.IH by blast
    qed
    with xy Cons show ?thesis by simp
  qed
qed




lemma number_to_string_safe:
  "\<bar>k\<bar> < 2 ^ 53 \<Longrightarrow> number_to_string (Num (of_int k)) = decimal_of_int k"
proof -
  assume "\<bar>k\<bar> < 2 ^ 53"
  then have "\<bar>rat_of_int k\<bar> < 2 ^ 53"
    by (metis of_int_abs of_int_less_numeral_power_cancel_iff)
  then show ?thesis by simp
qed

lemma exponent_form_no_comma:
  "CHR '','' \<notin> set ds \<Longrightarrow> CHR '','' \<notin> set (exponent_form ds n)"
  using digits10_chars [of "CHR '',''"]
  by (auto simp: exponent_form_def dest: in_set_takeD in_set_dropD)

lemma exponent_form_length: "2 \<le> length (exponent_form ds n)"
  by (simp add: exponent_form_def)

lemma format_digits_no_comma:
  "CHR '','' \<notin> set ds \<Longrightarrow> CHR '','' \<notin> set (format_digits ds n)"
  using exponent_form_no_comma [of ds n]
  by (auto simp: format_digits_def Let_def dest: in_set_takeD in_set_dropD)

lemma format_digits_length:
  assumes "ds \<noteq> []" "2 \<le> n" shows "2 \<le> length (format_digits ds n)"
proof -
  from assms(1) have "1 \<le> length ds" by (cases ds) simp_all
  with assms(2) exponent_form_length [of ds n] show ?thesis
    by (auto simp: format_digits_def Let_def)
qed

lemma format_digits_nonempty: "ds \<noteq> [] \<Longrightarrow> format_digits ds n \<noteq> []"
  using exponent_form_length [of ds n] by (auto simp: format_digits_def Let_def)

lemma candidate_exponent: "candidate v n0 k = Some (s, n) \<Longrightarrow> n = n0 \<or> n = n0 + 1"
  by (auto simp: candidate_def Let_def split: if_splits)

lemma shortest_from_exponent:
  "shortest_from f v n0 k = Some (s, n, k') \<Longrightarrow> n = n0 \<or> n = n0 + 1"
proof (induction f arbitrary: k)
  case 0
  then show ?case by simp
next
  case (Suc f)
  show ?case
  proof (cases "candidate v n0 k")
    case None
    with Suc show ?thesis by simp
  next
    case (Some a)
    obtain s' n' where "a = (s', n')" by (cases a)
    with Some Suc.prems candidate_exponent [of v n0 k s' n'] show ?thesis by simp
  qed
qed

lemma decimal_exponent_ge: "1 \<le> v \<Longrightarrow> n \<le> decimal_exponent f v n"
proof (induction f arbitrary: v n)
  case 0
  then show ?case by simp
next
  case (Suc f)
  show ?case
  proof (cases "10 \<le> v")
    case True
    then have "1 \<le> v / 10" by simp
    from Suc.IH [OF this, of "n + 1"] True show ?thesis by simp
  next
    case False
    with Suc.prems show ?thesis by simp
  qed
qed

lemma decimal_exponent_ge10:
  assumes "10 \<le> v" "0 < f" shows "n + 1 \<le> decimal_exponent f v n"
proof -
  from assms(2) obtain g where f: "f = Suc g" by (cases f) simp_all
  from assms(1) have "1 \<le> v / 10" by simp
  from decimal_exponent_ge [OF this, of "n + 1" g] assms(1) f show ?thesis by simp
qed

lemma positive_to_string_no_comma: "CHR '','' \<notin> set (positive_to_string v)"
proof -
  have d: "CHR '','' \<notin> set (digits10 m)" for m using digits10_chars [of "CHR '','' " m] by blast
  show ?thesis
    unfolding positive_to_string_def Let_def
    by (simp add: format_digits_no_comma exponent_form_no_comma d split: option.split prod.split)
qed

lemma positive_to_string_nonempty: "positive_to_string v \<noteq> []"
proof -
  have "exponent_form ds n \<noteq> []" for ds n using exponent_form_length [of ds n] by auto
  then show ?thesis
    unfolding positive_to_string_def Let_def
    by (simp add: format_digits_nonempty digits10_nonempty split: option.split prod.split)
qed

lemma positive_to_string_length:
  assumes "10 \<le> v" shows "2 \<le> length (positive_to_string v)"
proof (cases "shortest_from 17 v (decimal_exponent 400 v 1) 1")
  case None
  then show ?thesis by (simp add: positive_to_string_def Let_def exponent_form_length)
next
  case (Some a)
  obtain s n k where a: "a = (s, n, k)" by (cases a)
  from decimal_exponent_ge10 [OF assms, of 400 1] have "2 \<le> decimal_exponent 400 v 1" by simp
  with shortest_from_exponent [of 17 v "decimal_exponent 400 v 1" 1 s n k] Some a
  have "2 \<le> n" by auto
  with Some a show ?thesis
    by (simp add: positive_to_string_def Let_def format_digits_length digits10_nonempty)
qed

lemma number_to_string_no_comma: "CHR '','' \<notin> set (number_to_string (Num q))"
  using decimal_of_int_no_comma positive_to_string_no_comma by simp

lemma number_to_string_nonempty: "number_to_string (Num q) \<noteq> []"
  using decimal_of_int_nonempty positive_to_string_nonempty by simp

lemma decimal_of_int_bit: "decimal_of_int 0 = ''0''" "decimal_of_int 1 = ''1''"
  by (simp_all add: decimal_of_int_def digits10.simps dec_digit_def)

lemma number_to_string_bit:
  assumes "number_to_string (Num (of_int x)) = decimal_of_int b" "b = 0 \<or> b = 1"
  shows "x = b"
proof (cases "\<bar>x\<bar> < 2 ^ 53")
  case True
  with assms(1) show ?thesis by (simp only: number_to_string_safe decimal_of_int_inj)
next
  case False
  then have big: "\<not> \<bar>rat_of_int x\<bar> < 2 ^ 53"
    by (metis of_int_abs of_int_less_numeral_power_cancel_iff)
  from assms(2) have l: "length (decimal_of_int b) = 1" and h: "hd (decimal_of_int b) \<noteq> CHR ''-''"
    by (auto simp: decimal_of_int_bit)
  show ?thesis
  proof (cases "x < 0")
    case True
    with big have "hd (number_to_string (Num (of_int x))) = CHR ''-''" by simp
    with assms(1) h show ?thesis by simp
  next
    case False
    with \<open>\<not> \<bar>x\<bar> < 2 ^ 53\<close> have x: "2 ^ 53 \<le> x" by simp
    then have r: "(2 :: rat) ^ 53 \<le> of_int x"
      by (metis of_int_numeral of_int_le_iff of_int_power)
    then have "(2 :: rat) ^ 52 \<le> of_int x * 2 ^ 1074"
    proof -
      have "(2 :: rat) ^ 52 \<le> 2 ^ 53 * 1" by simp
      also have "\<dots> \<le> of_int x * 2 ^ 1074" using r by (intro mult_mono) simp_all
      finally show ?thesis .
    qed
    from fl_rel_lower [OF this] have "of_int x * (1 - 1 / 2 ^ 52) \<le> fl (of_int x)" .
    moreover have "(10 :: rat) \<le> 2 ^ 53 * (1 - 1 / 2 ^ 52)" by simp
    moreover have "(2 :: rat) ^ 53 * (1 - 1 / 2 ^ 52) \<le> of_int x * (1 - 1 / 2 ^ 52)"
      using r by (intro mult_right_mono) simp_all
    ultimately have "10 \<le> fl (of_int x)" by linarith
    from positive_to_string_length [OF this] False big
    have "2 \<le> length (number_to_string (Num (of_int x)))" by simp
    with assms(1) l show ?thesis by simp
  qed
qed

lemma JSON_stringify_bits:
  assumes "set e \<subseteq> {0, 1}"
  shows "JSON_stringify e = JSON_stringify r \<longleftrightarrow> e = r"
proof
  let ?f = "\<lambda>x. number_to_string (Num (of_int x))"
  assume "JSON_stringify e = JSON_stringify r"
  then have "join_commas (map ?f e) = join_commas (map ?f r)"
    by (simp add: JSON_stringify_def)
  moreover have "\<forall>s\<in>set (map ?f e) \<union> set (map ?f r). CHR '','' \<notin> set s \<and> s \<noteq> []"
    using number_to_string_no_comma number_to_string_nonempty by (auto simp del: number_to_string.simps)
  ultimately have "map ?f e = map ?f r" by (rule join_commas_inj [rotated])
  with assms show "e = r"
  proof (induction e arbitrary: r)
    case Nil
    then show ?case by simp
  next
    case (Cons a e)
    from Cons.prems(2) obtain b r' where r: "r = b # r'" by (cases r) auto
    from Cons.prems(1) have a: "a = 0 \<or> a = 1" and "\<bar>a\<bar> < 2 ^ 53" and e: "set e \<subseteq> {0, 1}" by auto
    from Cons.prems(2) r have hd: "?f a = ?f b" and tl: "map ?f e = map ?f r'" by simp_all
    from hd \<open>\<bar>a\<bar> < 2 ^ 53\<close> have "number_to_string (Num (of_int b)) = decimal_of_int a"
      using number_to_string_safe [of a] by (simp del: number_to_string.simps)
    from number_to_string_bit [OF this a] have "b = a" .
    moreover from Cons.IH [OF e tl] have "e = r'" .
    ultimately show ?case using r by simp
  qed
qed simp

lemma calculatePath_bits:
  "set (calculatePath sha256 server_seed client_seed n row_count) \<subseteq> {0, 1}"
  by (auto simp: calculatePath_eq)

section \<open>The sample and the decisions of the path\<close>




lemma nadd_Num: "nadd (Num a) (Num b) = Num (fl (a + b))"
  by simp





section \<open>Verification\<close>

lemma strict_eq_imp: "strict_eq x y \<Longrightarrow> x = y"
  by (simp add: strict_eq_def)

lemma strict_eq_Num: "strict_eq (Num a) y \<longleftrightarrow> y = Num a"
  by (auto simp: strict_eq_def)

lemma strict_eq_opt_imp: "strict_eq_opt x y \<Longrightarrow> x = y"
  by (cases x; cases y) (simp_all add: strict_eq_imp)

lemma strict_eq_opt_Num: "strict_eq_opt (Some (Num a)) y \<longleftrightarrow> y = Some (Num a)"
  by (cases y) (auto simp: strict_eq_Num)

lemma calculateGameResult_fields:
  "path (calculateGameResult sha256 server_seed client_seed n options) =
     calculatePath sha256 server_seed client_seed n (rows options)"
  "gameResult (calculateGameResult sha256 server_seed client_seed n options) =
     calculateFinalBin (calculatePath sha256 server_seed client_seed n (rows options))"
  "finalMultiplier (calculateGameResult sha256 server_seed client_seed n options) =
     resolveMultiplier (calculateFinalBin (calculatePath sha256 server_seed client_seed n (rows options)))
       (riskMode options)"
  "ProvablyFairResult.nonce (calculateGameResult sha256 server_seed client_seed n options) = n"
  "ProvablyFairResult.serverSeed (calculateGameResult sha256 server_seed client_seed n options) =
     server_seed"
  "ProvablyFairResult.clientSeed (calculateGameResult sha256 server_seed client_seed n options) =
     client_seed"
  "hashedServerSeed (calculateGameResult sha256 server_seed client_seed n options) =
     hashServerSeed sha256 server_seed"
  by (simp_all add: calculateGameResult_def Let_def)

lemma JSON_stringify_path:
  "JSON_stringify (path (calculateGameResult sha256 server_seed client_seed n options)) =
     JSON_stringify p \<longleftrightarrow>
   path (calculateGameResult sha256 server_seed client_seed n options) = p"
  unfolding calculateGameResult_fields(1) by (rule JSON_stringify_bits [OF calculatePath_bits])

lemma verifyGameResult_fields:
  assumes "verifyGameResult sha256 server_seed client_seed n options r"
  shows "gameResult r = gameResult (calculateGameResult sha256 server_seed client_seed n options)"
    and "finalMultiplier r =
           finalMultiplier (calculateGameResult sha256 server_seed client_seed n options)"
    and "path r = path (calculateGameResult sha256 server_seed client_seed n options)"
  using assms
  by (auto simp: verifyGameResult_def Let_def JSON_stringify_path
      dest: strict_eq_imp strict_eq_opt_imp)

lemma calculateGameResult_numbers:
  assumes "0 < rows options"
  shows "\<exists>k q. gameResult (calculateGameResult sha256 server_seed client_seed n options) = Num (of_int k) \<and>
           0 \<le> k \<and> k \<le> 16 \<and> 0 < q \<and>
           finalMultiplier (calculateGameResult sha256 server_seed client_seed n options) = Some (Num q)"
proof -
  let ?p = "calculatePath sha256 server_seed client_seed n (rows options)"
  from assms have "?p \<noteq> []" using calculatePath_length [of sha256 server_seed client_seed n "rows options"]
    by auto
  then obtain k where k: "calculateFinalBin ?p = Num (of_int k)" "0 \<le> k" "k \<le> 16"
    using calculateFinalBin_range by blast
  then have m: "resolveMultiplier (calculateFinalBin ?p) (riskMode options) =
      Some (MULTIPLIERS (riskMode options) ! nat k)"
    using resolveMultiplier_int [of k "riskMode options"] by simp
  from k have "MULTIPLIERS (riskMode options) ! nat k \<in> set (MULTIPLIERS (riskMode options))"
    by (intro nth_mem) (simp add: MULTIPLIERS_length)
  then obtain q where "0 < q" "MULTIPLIERS (riskMode options) ! nat k = Num q"
    using MULTIPLIERS_pos by blast
  with k m show ?thesis by (auto simp: calculateGameResult_fields)
qed

lemma verifyGameResult_iff:
  assumes "0 < rows options"
  shows "verifyGameResult sha256 server_seed client_seed n options r \<longleftrightarrow>
           gameResult r = gameResult (calculateGameResult sha256 server_seed client_seed n options) \<and>
           finalMultiplier r =
             finalMultiplier (calculateGameResult sha256 server_seed client_seed n options) \<and>
           path r = path (calculateGameResult sha256 server_seed client_seed n options)"
proof -
  from calculateGameResult_numbers [OF assms, of sha256 server_seed client_seed n]
  obtain k q where
    "gameResult (calculateGameResult sha256 server_seed client_seed n options) = Num (of_int k)"
    "finalMultiplier (calculateGameResult sha256 server_seed client_seed n options) = Some (Num q)"
    by blast
  then show ?thesis
    by (auto simp: verifyGameResult_def Let_def JSON_stringify_path strict_eq_Num strict_eq_opt_Num)
qed

lemma verifyGameResult_non_positive_rows:
  assumes "rows options \<le> 0"
  shows "\<not> verifyGameResult sha256 server_seed client_seed n options r"
proof -
  have "calculatePath sha256 server_seed client_seed n (rows options) = []"
    using assms calculatePath_length [of sha256 server_seed client_seed n "rows options"] by simp
  then have "gameResult (calculateGameResult sha256 server_seed client_seed n options) = NaN"
    by (simp add: calculateGameResult_fields calculateFinalBin_Nil)
  then show ?thesis by (simp add: verifyGameResult_def Let_def strict_eq_def)
qed

text \<open>
  C1, amended. Verification returns true only if the reported bin, multiplier and path
  equal the recomputed ones, so altering any single one of the three fields of the
  derivation's own output makes it return false. For a row count of at least one the
  converse holds as well: verification returns true if and only if the three fields equal
  the recomputed ones, and in particular the exact output of \<^verbatim>\<open>calculateGameResult\<close> on
  the same inputs verifies.
\<close>

theorem verifyGameResult_sound:
  "(0 < rows options \<longrightarrow>
      (verifyGameResult sha256 server_seed client_seed n options r \<longleftrightarrow>
         gameResult r = gameResult (calculateGameResult sha256 server_seed client_seed n options) \<and>
         finalMultiplier r =
           finalMultiplier (calculateGameResult sha256 server_seed client_seed n options) \<and>
         path r = path (calculateGameResult sha256 server_seed client_seed n options)) \<and>
      verifyGameResult sha256 server_seed client_seed n options
        (calculateGameResult sha256 server_seed client_seed n options)) \<and>
   (g \<noteq> gameResult (calculateGameResult sha256 server_seed client_seed n options) \<longrightarrow>
      \<not> verifyGameResult sha256 server_seed client_seed n options
          ((calculateGameResult sha256 server_seed client_seed n options)\<lparr>gameResult := g\<rparr>)) \<and>
   (m \<noteq> finalMultiplier (calculateGameResult sha256 server_seed client_seed n options) \<longrightarrow>
      \<not> verifyGameResult sha256 server_seed client_seed n options
          ((calculateGameResult sha256 server_seed client_seed n options)\<lparr>finalMultiplier := m\<rparr>)) \<and>
   (p \<noteq> path (calculateGameResult sha256 server_seed client_seed n options) \<longrightarrow>
      \<not> verifyGameResult sha256 server_seed client_seed n options
          ((calculateGameResult sha256 server_seed client_seed n options)\<lparr>path := p\<rparr>))"
proof (intro conjI impI)
  assume pos: "0 < rows options"
  show "verifyGameResult sha256 server_seed client_seed n options r \<longleftrightarrow>
         gameResult r = gameResult (calculateGameResult sha256 server_seed client_seed n options) \<and>
         finalMultiplier r =
           finalMultiplier (calculateGameResult sha256 server_seed client_seed n options) \<and>
         path r = path (calculateGameResult sha256 server_seed client_seed n options)"
    by (rule verifyGameResult_iff [OF pos])
  show "verifyGameResult sha256 server_seed client_seed n options
        (calculateGameResult sha256 server_seed client_seed n options)"
    by (simp add: verifyGameResult_iff [OF pos])
next
  assume "g \<noteq> gameResult (calculateGameResult sha256 server_seed client_seed n options)"
  then show "\<not> verifyGameResult sha256 server_seed client_seed n options
          ((calculateGameResult sha256 server_seed client_seed n options)\<lparr>gameResult := g\<rparr>)"
    using verifyGameResult_fields(1) by fastforce
next
  assume "m \<noteq> finalMultiplier (calculateGameResult sha256 server_seed client_seed n options)"
  then show "\<not> verifyGameResult sha256 server_seed client_seed n options
          ((calculateGameResult sha256 server_seed client_seed n options)\<lparr>finalMultiplier := m\<rparr>)"
    using verifyGameResult_fields(2) by fastforce
next
  assume "p \<noteq> path (calculateGameResult sha256 server_seed client_seed n options)"
  then show "\<not> verifyGameResult sha256 server_seed client_seed n options
          ((calculateGameResult sha256 server_seed client_seed n options)\<lparr>path := p\<rparr>)"
    using verifyGameResult_fields(3) by fastforce
qed

theorem verifyGameResult_sound_witness:
  "0 < rows \<lparr>rows = 8, riskMode = medium\<rparr> \<and>
   verifyGameResult (constant_digest 255) ''0000'' ''1111'' (Num 0) \<lparr>rows = 8, riskMode = medium\<rparr>
     (calculateGameResult (constant_digest 255) ''0000'' ''1111'' (Num 0) \<lparr>rows = 8, riskMode = medium\<rparr>) \<and>
   \<not> verifyGameResult (constant_digest 255) ''0000'' ''1111'' (Num 0) \<lparr>rows = 8, riskMode = medium\<rparr>
     ((calculateGameResult (constant_digest 255) ''0000'' ''1111'' (Num 0)
         \<lparr>rows = 8, riskMode = medium\<rparr>)\<lparr>gameResult := NaN\<rparr>) \<and>
   \<not> verifyGameResult (constant_digest 255) ''0000'' ''1111'' (Num 0) \<lparr>rows = 8, riskMode = medium\<rparr>
     ((calculateGameResult (constant_digest 255) ''0000'' ''1111'' (Num 0)
         \<lparr>rows = 8, riskMode = medium\<rparr>)\<lparr>finalMultiplier := None\<rparr>) \<and>
   \<not> verifyGameResult (constant_digest 255) ''0000'' ''1111'' (Num 0) \<lparr>rows = 8, riskMode = medium\<rparr>
     ((calculateGameResult (constant_digest 255) ''0000'' ''1111'' (Num 0)
         \<lparr>rows = 8, riskMode = medium\<rparr>)\<lparr>path := []\<rparr>)"
proof -
  let ?o = "\<lparr>rows = 8, riskMode = medium\<rparr>"
  let ?e = "calculateGameResult (constant_digest 255) ''0000'' ''1111'' (Num 0) ?o"
  have pos: "0 < rows ?o" by simp
  from calculateGameResult_numbers [OF pos, of "constant_digest 255" "''0000''" "''1111''" "Num 0"]
  have g: "NaN \<noteq> gameResult ?e" and m: "None \<noteq> finalMultiplier ?e" by auto
  have "length (path ?e) = 8" by (simp add: calculateGameResult_fields calculatePath_length)
  then have p: "[] \<noteq> path ?e" by auto
  from verifyGameResult_sound [of ?o "constant_digest 255" "''0000''" "''1111''" "Num 0" ?e NaN None "[]"]
    pos g m p
  show ?thesis by blast
qed

text \<open>
  C1 as stated fails for a row count of zero: the path is empty, the bin is NaN, and
  \<open>NaN === NaN\<close> is false, so the derivation's own output does not verify.
\<close>

theorem verifyGameResult_zero_rows_counterexample:
  "\<not> verifyGameResult (constant_digest 255) ''0000'' ''1111'' (Num 0) \<lparr>rows = 0, riskMode = medium\<rparr>
       (calculateGameResult (constant_digest 255) ''0000'' ''1111'' (Num 0) \<lparr>rows = 0, riskMode = medium\<rparr>)"
  by (rule verifyGameResult_non_positive_rows) simp

text \<open>
  C10. Verification reads only the bin, the multiplier and the path of the reported
  result: two reported results that agree on these three get the same answer, whatever
  their seeds, hashed server seed and nonce; in particular the reported hashed server seed
  is never compared with the hash of the server seed.
\<close>

theorem verifyGameResult_three_fields:
  assumes "gameResult r1 = gameResult r2" and "finalMultiplier r1 = finalMultiplier r2"
    and "path r1 = path r2"
  shows "verifyGameResult sha256 server_seed client_seed n options r1 =
           verifyGameResult sha256 server_seed client_seed n options r2 \<and>
         verifyGameResult sha256 server_seed client_seed n options (r1\<lparr>hashedServerSeed := h\<rparr>) =
           verifyGameResult sha256 server_seed client_seed n options r1"
  using assms by (simp add: verifyGameResult_def)

theorem verifyGameResult_three_fields_witness:
  "gameResult (calculateGameResult (constant_digest 255) ''0000'' ''1111'' (Num 0) \<lparr>rows = 8, riskMode = medium\<rparr>) =
     gameResult ((calculateGameResult (constant_digest 255) ''0000'' ''1111'' (Num 0) \<lparr>rows = 8, riskMode = medium\<rparr>)
       \<lparr>ProvablyFairResult.clientSeed := ''2222'', ProvablyFairResult.serverSeed := ''3333'',
        hashedServerSeed := ''not a hash'', ProvablyFairResult.nonce := Num 99\<rparr>) \<and>
   verifyGameResult (constant_digest 255) ''0000'' ''1111'' (Num 0) \<lparr>rows = 8, riskMode = medium\<rparr>
     ((calculateGameResult (constant_digest 255) ''0000'' ''1111'' (Num 0) \<lparr>rows = 8, riskMode = medium\<rparr>)
       \<lparr>ProvablyFairResult.clientSeed := ''2222'', ProvablyFairResult.serverSeed := ''3333'',
        hashedServerSeed := ''not a hash'', ProvablyFairResult.nonce := Num 99\<rparr>)"
proof -
  let ?o = "\<lparr>rows = 8, riskMode = medium\<rparr>"
  let ?e = "calculateGameResult (constant_digest 255) ''0000'' ''1111'' (Num 0) ?o"
  let ?r = "?e\<lparr>ProvablyFairResult.clientSeed := ''2222'', ProvablyFairResult.serverSeed := ''3333'',
        hashedServerSeed := ''not a hash'', ProvablyFairResult.nonce := Num 99\<rparr>"
  have a: "gameResult ?e = gameResult ?r" "finalMultiplier ?e = finalMultiplier ?r" "path ?e = path ?r"
    by simp_all
  have "verifyGameResult (constant_digest 255) ''0000'' ''1111'' (Num 0) ?o ?e"
    by (simp add: verifyGameResult_iff)
  with verifyGameResult_three_fields [OF a, of "constant_digest 255" "''0000''" "''1111''" "Num 0" ?o]
  have "verifyGameResult (constant_digest 255) ''0000'' ''1111'' (Num 0) ?o ?r" by simp
  with a(1) show ?thesis by simp
qed

section \<open>The play handler\<close>

lemma on_play_resolved:
  assumes "states socket_id = Some userState"
    and "\<not> nle (to_number betAmount) (Num 0)"
    and "\<not> ngt (to_number betAmount) (balance userState)"
  shows "on_play sha256 socket_id betAmount data_riskMode data_rows states =
     (let gameOptions =
            \<lparr>rows = (case data_rows of None \<Rightarrow> 16 | Some r \<Rightarrow> if r = 0 then 16 else r),
             riskMode = (case data_riskMode of None \<Rightarrow> medium | Some m \<Rightarrow> m)\<rparr>;
          result = calculateGameResult sha256 (serverSeed userState)
                     (clientSeed userState) (Num (of_int (nonce userState))) gameOptions;
          winAmount = nmul (to_number betAmount) (to_number (finalMultiplier result));
          new_balance = nadd (nsub (balance userState) (to_number betAmount)) winAmount
      in (states(socket_id \<mapsto> userState\<lparr>balance := new_balance, nonce := nonce userState + 1\<rparr>),
          [game_result result betAmount winAmount new_balance]))"
  using assms by (simp add: on_play_def Let_def)

text \<open>
  C8. A play request whose bet is \<open><= 0\<close> or \<open>>\<close> the session's balance is rejected before
  any derivation runs: the handler emits the one \<^verbatim>\<open>game:error\<close> event, no outcome is
  computed, and the table of sessions, so the session's counter and balance, is unchanged.
\<close>

theorem on_play_rejects_invalid_bet:
  assumes "states socket_id = Some userState"
    and "nle (to_number betAmount) (Num 0) \<or> ngt (to_number betAmount) (balance userState)"
  shows "on_play sha256 socket_id betAmount data_riskMode data_rows states =
           (states, [game_error ''Invalid bet amount or insufficient balance'']) \<and>
         derivations (snd (on_play sha256 socket_id betAmount data_riskMode data_rows states)) = [] \<and>
         fst (on_play sha256 socket_id betAmount data_riskMode data_rows states) socket_id =
           Some userState"
  using assms by (simp add: on_play_def)

theorem on_play_rejects_invalid_bet_witness:
  "session ''0000'' ''1111'' 3 1000 ''socket-1'' =
     Some \<lparr>serverSeed = ''0000'', clientSeed = ''1111'', nonce = 3, balance = Num 1000\<rparr> \<and>
   ngt (to_number (Some (Num 1001))) (Num 1000) \<and>
   on_play (constant_digest 255) ''socket-1'' (Some (Num 1001)) (Some high) (Some 8)
       (session ''0000'' ''1111'' 3 1000) =
     (session ''0000'' ''1111'' 3 1000, [game_error ''Invalid bet amount or insufficient balance'']) \<and>
   on_play (constant_digest 255) ''socket-1'' (Some (Num 0)) (Some high) (Some 8)
       (session ''0000'' ''1111'' 3 1000) =
     (session ''0000'' ''1111'' 3 1000, [game_error ''Invalid bet amount or insufficient balance''])"
proof -
  let ?us = "\<lparr>serverSeed = ''0000'', clientSeed = ''1111'', nonce = 3, balance = Num 1000\<rparr>"
  have s: "session ''0000'' ''1111'' 3 1000 ''socket-1'' = Some ?us" by (simp add: session_def)
  have a: "nle (to_number (Some (Num 1001))) (Num 0) \<or> ngt (to_number (Some (Num 1001))) (balance ?us)"
    by (simp add: ngt_def)
  have b: "nle (to_number (Some (Num 0))) (Num 0) \<or> ngt (to_number (Some (Num 0))) (balance ?us)"
    by (simp add: nle_def)
  from on_play_rejects_invalid_bet [of "session ''0000'' ''1111'' 3 1000" "''socket-1''" ?us
      "Some (Num 1001)" "constant_digest 255" "Some high" "Some 8",
      OF s a]
    on_play_rejects_invalid_bet [of "session ''0000'' ''1111'' 3 1000" "''socket-1''" ?us
      "Some (Num 0)" "constant_digest 255" "Some high" "Some 8",
      OF s b] s
  show ?thesis by (simp add: ngt_def)
qed


lemma calculateGameResult_default_multiplier:
  "\<exists>q. 0 < q \<and>
     finalMultiplier (calculateGameResult sha256 server_seed client_seed n
       \<lparr>rows = 16, riskMode = medium\<rparr>) = Some (Num q)"
  using calculateGameResult_numbers [of "\<lparr>rows = 16, riskMode = medium\<rparr>" sha256 server_seed client_seed n]
  by auto

lemma session_transitions:
  assumes "states socket_id = Some userState"
  shows "\<not> nle (to_number betAmount) (Num 0) \<Longrightarrow> \<not> ngt (to_number betAmount) (balance userState) \<Longrightarrow>
           \<exists>b. fst (on_play sha256 socket_id betAmount data_riskMode data_rows states) socket_id =
             Some (userState\<lparr>balance := b, nonce := nonce userState + 1\<rparr>)"
    and "on_new_server_seed sha256 socket_id g states =
           (states(socket_id \<mapsto> userState\<lparr>serverSeed := g, nonce := 0\<rparr>),
            [game_reveal_seed (serverSeed userState), game_new_seed_hashed (hashServerSeed sha256 g)])"
    and "on_new_client_seed socket_id d g states =
           (states(socket_id \<mapsto> userState\<lparr>clientSeed :=
               (case d of None \<Rightarrow> g | Some s \<Rightarrow> if s = [] then g else s), nonce := 0\<rparr>),
            [game_new_seed_client (case d of None \<Rightarrow> g | Some s \<Rightarrow> if s = [] then g else s)])"
  using assms
  by (auto simp: on_play_def on_new_server_seed_def on_new_client_seed_def Let_def)

text \<open>
  What the handler does with a bet that is missing: \<^verbatim>\<open>undefined <= 0\<close> and
  \<^verbatim>\<open>undefined > balance\<close> are both false, so the play is resolved, the counter advances and
  the balance becomes NaN.
\<close>

lemma on_play_missing_bet:
  assumes "states socket_id = Some userState"
  shows "\<exists>r. on_play sha256 socket_id None data_riskMode data_rows states =
           (states(socket_id \<mapsto> userState\<lparr>balance := NaN, nonce := nonce userState + 1\<rparr>),
            [game_result r None NaN NaN])"
proof -
  have "\<not> nlt (balance userState) NaN" by (cases "balance userState") simp_all
  moreover have "nadd (balance userState) NaN = NaN" by (cases "balance userState") simp_all
  ultimately show ?thesis
    using assms by (simp add: on_play_def Let_def nle_def ngt_def nsub_def)
qed




section \<open>The counter of a session\<close>

lemma balance_after_unit_bet:
  assumes "0 < q"
  shows "\<exists>b. nadd (nsub (Num 1000) (Num 1)) (nmul (Num 1) (Num q)) = Num b \<and> 1 \<le> b"
proof -
  let ?w = "fl (1 * q)"
  have w: "0 \<le> ?w" using assms by (intro fl_nonneg) simp
  have f: "fl 999 = 999" using fl_of_int [of 999] by simp
  have big: "2 ^ 52 \<le> (999 + ?w) * 2 ^ 1074"
  proof -
    have "(2::rat) ^ 52 \<le> 999 * 2 ^ 1074" by simp
    also have "\<dots> \<le> (999 + ?w) * 2 ^ 1074" using w by (intro mult_right_mono) simp_all
    finally show ?thesis .
  qed
  have "(1::rat) \<le> 999 * (1 - 1 / 2 ^ 52)" by simp
  also have "\<dots> \<le> (999 + ?w) * (1 - 1 / 2 ^ 52)" using w by (intro mult_right_mono) simp_all
  also have "\<dots> \<le> fl (999 + ?w)" by (rule fl_rel_lower [OF big])
  finally have "1 \<le> fl (999 + ?w)" .
  then show ?thesis by (simp add: nsub_def f)
qed

text \<open>
  C7. The handlers do advance the counter by one per resolved play and reset it to zero on
  both seed changes (\<open>session_transitions\<close>), but the counter is reused within one pair of
  seeds: a \<^verbatim>\<open>game:new-client-seed\<close> request that names the client seed already in use resets
  the counter while both seeds stay the same. The two plays below are derived from the
  same server seed, client seed and nonce, so their outcomes are identical.
\<close>

theorem nonce_reused_after_same_client_seed:
  assumes "client_seed \<noteq> []"
  shows "derivations (snd (run sha256 ''socket-1''
           [play (Some (Num 1)) None None,
            new_client_seed (Some client_seed) g,
            play (Some (Num 1)) None None]
           (session server_seed client_seed 0 1000))) =
         [(server_seed, client_seed, Num 0), (server_seed, client_seed, Num 0)]"
proof -
  let ?sid = "''socket-1''"
  let ?us0 = "\<lparr>serverSeed = server_seed, clientSeed = client_seed, nonce = 0, balance = Num 1000\<rparr>"
  let ?st0 = "session server_seed client_seed 0 1000"
  let ?r = "calculateGameResult sha256 server_seed client_seed (Num 0) \<lparr>rows = 16, riskMode = medium\<rparr>"
  have s0: "?st0 ?sid = Some ?us0" by (simp add: session_def)
  obtain q where q: "0 < q" "finalMultiplier ?r = Some (Num q)"
    using calculateGameResult_default_multiplier by blast
  obtain b where b: "nadd (nsub (Num 1000) (Num 1)) (nmul (Num 1) (Num q)) = Num b" "1 \<le> b"
    using balance_after_unit_bet [OF q(1)] by blast
  let ?w = "nmul (Num 1) (Num q)"
  let ?us1 = "?us0\<lparr>balance := Num b, nonce := 1\<rparr>"
  let ?st1 = "?st0(?sid \<mapsto> ?us1)"
  have p1: "on_play sha256 ?sid (Some (Num 1)) None None ?st0 =
              (?st1, [game_result ?r (Some (Num 1)) ?w (Num b)])"
    using on_play_resolved [of ?st0 ?sid ?us0 "Some (Num 1)" sha256 None None] s0 q b
    by (simp add: Let_def nle_def ngt_def)
  let ?us2 = "?us1\<lparr>clientSeed := client_seed, nonce := 0\<rparr>"
  let ?st2 = "?st1(?sid \<mapsto> ?us2)"
  have c: "on_new_client_seed ?sid (Some client_seed) g ?st1 = (?st2, [game_new_seed_client client_seed])"
    using assms by (simp add: on_new_client_seed_def)
  have s2: "?st2 ?sid = Some ?us2" by simp
  have "\<exists>st3 w' b'. on_play sha256 ?sid (Some (Num 1)) None None ?st2 =
              (st3, [game_result ?r (Some (Num 1)) w' b'])"
    using on_play_resolved [of ?st2 ?sid ?us2 "Some (Num 1)" sha256 None None] s2 b
    by (simp add: Let_def nle_def ngt_def)
  then obtain st3 w' b' where p2: "on_play sha256 ?sid (Some (Num 1)) None None ?st2 =
              (st3, [game_result ?r (Some (Num 1)) w' b'])" by blast
  have "run sha256 ?sid
           [play (Some (Num 1)) None None, new_client_seed (Some client_seed) g,
            play (Some (Num 1)) None None] ?st0 =
        (st3, [game_result ?r (Some (Num 1)) ?w (Num b), game_new_seed_client client_seed,
               game_result ?r (Some (Num 1)) w' b'])"
    by (simp only: run.simps handle.simps p1 c p2 prod.case append.simps)
  then show ?thesis by (simp add: calculateGameResult_fields)
qed

theorem nonce_reused_after_same_client_seed_witness:
  "''1111'' \<noteq> [] \<and>
   derivations (snd (run (constant_digest 255) ''socket-1''
           [play (Some (Num 1)) None None,
            new_client_seed (Some ''1111'') ''2222'',
            play (Some (Num 1)) None None]
           (session ''0000'' ''1111'' 0 1000))) =
         [(''0000'', ''1111'', Num 0), (''0000'', ''1111'', Num 0)]"
proof -
  have ne: "''1111'' \<noteq> []" by simp
  from ne nonce_reused_after_same_client_seed [OF ne] show ?thesis by (rule conjI)
qed

end
